theory Spec2Isabelle
  imports Complex_Main
begin

section \<open>Types and constants (types.ts)\<close>

text \<open>
  JavaScript numbers are modelled exactly: counters that the program only ever moves in
  whole steps (score, lives, level, lane count, epoch milliseconds) are \<open>int\<close>, and
  the quantities it scales by fractions (speed, distances, coordinates) are \<open>real\<close>.
  Rounding of IEEE doubles is not part of the model.
\<close>

datatype GameStatus = MENU | PLAYING | GAME_OVER | VICTORY

datatype ObjectType = OBSTACLE | GEM | LETTER | IMMORTALITY | HEART | ALIEN | MISSILE

text \<open>
  The interface \<open>GameObject\<close>. Optional fields are \<open>option\<close>s, a position is the
  triple (x, y, z). The fields \<open>id\<close>, \<open>type\<close> and \<open>value\<close> of the source are called
  \<open>oid\<close>, \<open>otype\<close> and \<open>ovalue\<close> here, and an identifier is a number.
  A character is its Unicode code point and a colour its hexadecimal text.
\<close>

record GameObject =
  oid :: nat
  otype :: ObjectType
  position :: "real \<times> real \<times> real"
  active :: bool
  ovalue :: "nat option"
  color :: "string option"
  targetIndex :: "nat option"
  points :: "int option"
  hasFired :: "bool option"

definition LANE_WIDTH :: real where "LANE_WIDTH = 2.2"
definition RUN_SPEED_BASE :: real where "RUN_SPEED_BASE = 22.5"
definition SPAWN_DISTANCE :: real where "SPAWN_DISTANCE = 120"
definition REMOVE_DISTANCE :: real where "REMOVE_DISTANCE = 20"

text \<open>
  \<open>LEVEL_TARGET_TEXTS\<close>, each string as the list of its code points
  (all of them in the basic plane, so \<open>Array.from\<close> yields one entry per code point).
\<close>

definition LEVEL_TARGET_TEXTS :: "int \<Rightarrow> nat list option" where
  "LEVEL_TARGET_TEXTS k =
     (if k = 1 then Some [33521, 33620, 32, 65, 73, 32, 21019, 36896, 20048, 22253]
      else if k = 2 then
        Some [29609, 32534, 31243, 65292, 29609, 32, 65, 73, 65292, 29609, 21019, 36896]
      else if k = 3 then
        Some [25918, 39134, 23401, 23376, 30340, 24819, 35937, 21147, 21644, 21019,
              36896, 21147]
      else None)"

text \<open>The class \<open>\s\<close> of JavaScript regular expressions.\<close>

definition isWhitespace :: "nat \<Rightarrow> bool" where
  "isWhitespace c \<longleftrightarrow>
     c \<in> set [9, 10, 11, 12, 13, 32, 160, 5760, 8232, 8233, 8239, 8287, 12288, 65279]
     \<or> (8192 \<le> c \<and> c \<le> 8202)"

text \<open>The punctuation class of \<open>normalizeTargetText\<close>, in the order of the source.\<close>

definition punctuation :: "nat list" where
  "punctuation =
     [65292, 44, 12290, 65294, 46, 33, 65281, 65311, 63, 12289, 59, 65307, 58, 65306,
      183, 8220, 8221, 34, 8216, 8217, 39, 65288, 65289, 40, 41, 12304, 12305, 91, 93,
      123, 125, 60, 62, 12298, 12299, 45]"

definition normalizeTargetText :: "nat list \<Rightarrow> nat list" where
  "normalizeTargetText text =
     filter (\<lambda>c. c \<notin> set punctuation) (filter (\<lambda>c. \<not> isWhitespace c) text)"

definition getTargetTextForLevel :: "int \<Rightarrow> nat list" where
  "getTargetTextForLevel level =
     (case LEVEL_TARGET_TEXTS (max 1 (min 3 level)) of
        Some t \<Rightarrow> t
      | None \<Rightarrow> the (LEVEL_TARGET_TEXTS 1))"

definition getTargetCharsForLevel :: "int \<Rightarrow> nat list" where
  "getTargetCharsForLevel level = normalizeTargetText (getTargetTextForLevel level)"

definition TARGET_PALETTE :: "string list" where
  "TARGET_PALETTE = [''#2979ff'', ''#ff1744'', ''#ffea00'', ''#00e676'', ''#b388ff'', ''#00ffff'']"

definition getTargetColorsForLevel :: "int \<Rightarrow> string list" where
  "getTargetColorsForLevel level =
     map (\<lambda>idx. TARGET_PALETTE ! (idx mod length TARGET_PALETTE))
       [0 ..< length (getTargetCharsForLevel level)]"

section \<open>The game state store (store.ts)\<close>

record GameState =
  status :: GameStatus
  score :: int
  lives :: int
  maxLives :: int
  speed :: real
  collectedLetters :: "nat list"
  level :: int
  laneCount :: int
  gemsCollected :: int
  distance :: int
  isImmortalityActive :: bool
  immortalityEndsAt :: int

definition MAX_LEVEL :: int where "MAX_LEVEL = 3"
definition LETTER_SPEED_TOTAL_FRACTION :: real where "LETTER_SPEED_TOTAL_FRACTION = 0.60"
definition DIFFICULTY_MULT :: real where "DIFFICULTY_MULT = 0.8"

definition makeOdd :: "int \<Rightarrow> int" where
  "makeOdd n = (if n mod 2 = 0 then n + 1 else n)"

text \<open>The state the store is created with.\<close>

definition initialState :: GameState where
  "initialState =
     \<lparr> status = MENU, score = 0, lives = 3, maxLives = 3, speed = 0,
       collectedLetters = [], level = 1, laneCount = 3, gemsCollected = 0, distance = 0,
       isImmortalityActive = False, immortalityEndsAt = 0 \<rparr>"

definition startGame :: "GameState \<Rightarrow> GameState" where
  "startGame s =
     s\<lparr> status := PLAYING, score := 0, lives := 3, maxLives := 3,
        speed := RUN_SPEED_BASE, collectedLetters := [], level := 1, laneCount := 3,
        gemsCollected := 0, distance := 0, isImmortalityActive := False,
        immortalityEndsAt := 0 \<rparr>"

definition restartGame :: "GameState \<Rightarrow> GameState" where
  "restartGame s =
     s\<lparr> status := PLAYING, score := 0, lives := 3, maxLives := 3,
        speed := RUN_SPEED_BASE, collectedLetters := [], level := 1, laneCount := 3,
        gemsCollected := 0, distance := 0, isImmortalityActive := False,
        immortalityEndsAt := 0 \<rparr>"

definition takeDamage :: "GameState \<Rightarrow> GameState" where
  "takeDamage s =
     (if isImmortalityActive s then s
      else if lives s > 1 then s\<lparr> lives := lives s - 1 \<rparr>
      else s\<lparr> lives := 0, status := GAME_OVER, speed := 0 \<rparr>)"

definition addScore :: "int \<Rightarrow> GameState \<Rightarrow> GameState" where
  "addScore amount s = s\<lparr> score := score s + amount \<rparr>"

definition collectGem :: "int \<Rightarrow> GameState \<Rightarrow> GameState" where
  "collectGem v s = s\<lparr> score := score s + v, gemsCollected := gemsCollected s + 1 \<rparr>"

definition healOne :: "GameState \<Rightarrow> GameState" where
  "healOne s =
     (if lives s \<ge> maxLives s then s
      else s\<lparr> lives := min (lives s + 1) (maxLives s) \<rparr>)"

definition setDistance :: "int \<Rightarrow> GameState \<Rightarrow> GameState" where
  "setDistance d s = s\<lparr> distance := d \<rparr>"

definition setStatus :: "GameStatus \<Rightarrow> GameState \<Rightarrow> GameState" where
  "setStatus st s = s\<lparr> status := st \<rparr>"

definition increaseLevel :: "GameState \<Rightarrow> GameState" where
  "increaseLevel s = s\<lparr> level := level s + 1 \<rparr>"

definition advanceLevel :: "GameState \<Rightarrow> GameState" where
  "advanceLevel s =
     (let nextLevel = level s + 1;
          speedIncrease = RUN_SPEED_BASE * 0.40 * DIFFICULTY_MULT;
          newSpeed = speed s + speedIncrease
      in s\<lparr> level := nextLevel,
             laneCount := min (makeOdd (laneCount s + 1)) 9,
             status := PLAYING,
             speed := newSpeed,
             collectedLetters := [] \<rparr>)"

definition collectLetter :: "nat \<Rightarrow> GameState \<Rightarrow> GameState" where
  "collectLetter index s =
     (let targetLen = length (getTargetCharsForLevel (level s)) in
      if index \<notin> set (collectedLetters s) then
        (let newLetters = collectedLetters s @ [index];
             perLetter = RUN_SPEED_BASE *
               ((LETTER_SPEED_TOTAL_FRACTION * DIFFICULTY_MULT) / real (max 1 targetLen));
             nextSpeed = speed s + perLetter;
             s1 = s\<lparr> collectedLetters := newLetters, speed := nextSpeed \<rparr>
         in if length newLetters = targetLen then
              (if level s < MAX_LEVEL then advanceLevel s1
               else s1\<lparr> status := VICTORY, score := score s1 + 5000 \<rparr>)
            else s1)
      else s)"

text \<open>
  \<open>activateImmortality\<close> reads the clock and schedules a callback. The store part takes
  the clock reading as an argument and reports whether a timer was scheduled; the
  callback is \<open>immortalityExpired\<close>. The timer queue itself is part of the system state
  below.
\<close>

definition activateImmortality :: "int \<Rightarrow> GameState \<Rightarrow> GameState \<times> bool" where
  "activateImmortality now s =
     (if \<not> isImmortalityActive s then
        (s\<lparr> isImmortalityActive := True, immortalityEndsAt := now + 5000 \<rparr>, True)
      else (s, False))"

definition immortalityExpired :: "GameState \<Rightarrow> GameState" where
  "immortalityExpired s = s\<lparr> isImmortalityActive := False, immortalityEndsAt := 0 \<rparr>"

section \<open>The simulation step (LevelManager, useFrame)\<close>

definition OBSTACLE_HEIGHT :: real where "OBSTACLE_HEIGHT = 1.6"
definition BASE_LETTER_INTERVAL :: real where "BASE_LETTER_INTERVAL = 150"
definition MISSILE_SPEED :: real where "MISSILE_SPEED = 30 * DIFFICULTY_MULT"

definition getLetterInterval :: "int \<Rightarrow> real" where
  "getLetterInterval lvl = BASE_LETTER_INTERVAL * 1.5 ^ nat (max 0 (lvl - 1))"

definition posX :: "GameObject \<Rightarrow> real" where "posX obj = fst (position obj)"
definition posY :: "GameObject \<Rightarrow> real" where "posY obj = fst (snd (position obj))"
definition posZ :: "GameObject \<Rightarrow> real" where "posZ obj = snd (snd (position obj))"

definition setZ :: "real \<Rightarrow> GameObject \<Rightarrow> GameObject" where
  "setZ z obj = obj\<lparr> position := (posX obj, posY obj, z) \<rparr>"

text \<open>
  What a frame sends to the outside: the \<open>player-hit\<close> event and the
  \<open>particle-burst\<close> event with its position and colour. Sounds are left out.
\<close>

datatype Event = PlayerHit | ParticleBurst "real \<times> real \<times> real" string

text \<open>
  The variables of the frame's loop over the registry. \<open>l_moved\<close> is the array the
  loop walks, whose objects are mutated in place; \<open>l_nextId\<close> stands for \<open>uuidv4\<close>,
  a supply of fresh identifiers.
\<close>

record LoopState =
  l_store :: GameState
  l_timers :: "int list"
  l_nextId :: nat
  l_hasChanges :: bool
  l_kept :: "GameObject list"
  l_newSpawns :: "GameObject list"
  l_events :: "Event list"
  l_moved :: "GameObject list"

definition newMissile :: "nat \<Rightarrow> GameObject \<Rightarrow> GameObject" where
  "newMissile i obj =
     \<lparr> oid = i, otype = MISSILE, position = (posX obj, 1.0, posZ obj + 2), active = True,
       ovalue = None, color = Some ''#ff0000'', targetIndex = None, points = None,
       hasFired = None \<rparr>"

definition alienFires :: "GameObject \<Rightarrow> bool" where
  "alienFires obj \<longleftrightarrow>
     otype obj = ALIEN \<and> active obj \<and> hasFired obj \<noteq> Some True \<and> posZ obj > -90"

definition inZZone :: "real \<Rightarrow> real \<Rightarrow> real \<Rightarrow> bool" where
  "inZZone prevZ z playerZ \<longleftrightarrow> prevZ < playerZ + 2.0 \<and> z > playerZ - 2.0"

definition isDamageSource :: "ObjectType \<Rightarrow> bool" where
  "isDamageSource t \<longleftrightarrow> t = OBSTACLE \<or> t = ALIEN \<or> t = MISSILE"

definition isHit :: "real \<Rightarrow> GameObject \<Rightarrow> bool" where
  "isHit playerY obj =
     (let playerBottom = playerY;
          playerTop = playerY + 1.8;
          objBottom = (if otype obj = OBSTACLE then 0
                       else if otype obj = MISSILE then 0.5 else posY obj - 0.5);
          objTop = (if otype obj = OBSTACLE then OBSTACLE_HEIGHT
                    else if otype obj = MISSILE then 1.5 else posY obj + 0.5)
      in playerBottom < objTop \<and> playerTop > objBottom)"

definition pointsOr50 :: "GameObject \<Rightarrow> int" where
  "pointsOr50 obj = (case points obj of None \<Rightarrow> 50 | Some p \<Rightarrow> if p = 0 then 50 else p)"

definition colorOrWhite :: "GameObject \<Rightarrow> string" where
  "colorOrWhite obj =
     (case color obj of None \<Rightarrow> ''#ffffff'' | Some c \<Rightarrow> if c = [] then ''#ffffff'' else c)"

text \<open>The four pickup tests, one after the other as in the source, on the store.\<close>

definition pickup :: "int \<Rightarrow> GameObject \<Rightarrow> LoopState \<Rightarrow> LoopState" where
  "pickup now obj L =
     (let L1 = (if otype obj = GEM
                then L\<lparr> l_store := collectGem (pointsOr50 obj) (l_store L) \<rparr> else L);
          L2 = (if otype obj = LETTER \<and> targetIndex obj \<noteq> None
                then L1\<lparr> l_store := collectLetter (the (targetIndex obj)) (l_store L1) \<rparr>
                else L1);
          L3 = (if otype obj = IMMORTALITY
                then (let (st, scheduled) = activateImmortality now (l_store L2)
                      in L2\<lparr> l_store := st,
                             l_timers := (if scheduled then l_timers L2 @ [now + 5000]
                                          else l_timers L2) \<rparr>)
                else L2);
          L4 = (if otype obj = HEART
                then L3\<lparr> l_store := healOne (l_store L3) \<rparr> else L3)
      in L4\<lparr> l_events := l_events L4 @ [ParticleBurst (position obj) (colorOrWhite obj)],
             l_hasChanges := True \<rparr>)"

text \<open>
  Modelled from the spec: the listener of the \<open>player-hit\<close> event is not part of the
  sources at hand. The specification says that the component that consumes the event
  applies \<open>takeDamage()\<close>. The source sends the event with \<open>window.dispatchEvent\<close>,
  which runs the listeners before it returns, so the listener runs inside the loop, at
  the object that hits, on the store as it is at that moment.
\<close>

definition playerHitListener :: "GameState \<Rightarrow> GameState" where
  "playerHitListener st = takeDamage st"

definition collide ::
  "real \<times> real \<times> real \<Rightarrow> int \<Rightarrow> real \<Rightarrow> GameObject \<Rightarrow> LoopState
     \<Rightarrow> GameObject \<times> LoopState" where
  "collide playerPos now prevZ obj L =
     (let (px, py, pz) = playerPos in
      if active obj \<and> inZZone prevZ (posZ obj) pz \<and> \<bar>posX obj - px\<bar> < 0.9 then
        (if isDamageSource (otype obj) then
           (if isHit py obj then
              (obj\<lparr> active := False \<rparr>,
               L\<lparr> l_store := playerHitListener (l_store L),
                  l_events := l_events L @ [PlayerHit] @
                      (if otype obj = MISSILE
                       then [ParticleBurst (position obj) ''#ff4400''] else []),
                  l_hasChanges := True \<rparr>)
            else (obj, L))
         else
           (if \<bar>posY obj - py\<bar> < 2.5
            then (obj\<lparr> active := False \<rparr>, pickup now obj L)
            else (obj, L)))
      else (obj, L))"

text \<open>The body of the loop over the registry, for one object.\<close>

definition processObj ::
  "real \<Rightarrow> real \<Rightarrow> real \<times> real \<times> real \<Rightarrow> int \<Rightarrow> LoopState \<Rightarrow> GameObject
     \<Rightarrow> LoopState" where
  "processObj dst safeDelta playerPos now L obj =
     (let moveAmount = dst + (if otype obj = MISSILE then MISSILE_SPEED * safeDelta else 0);
          prevZ = posZ obj;
          obj1 = setZ (prevZ + moveAmount) obj;
          fire = alienFires obj1;
          obj2 = (if fire then obj1\<lparr> hasFired := Some True \<rparr> else obj1);
          L1 = (if fire
                then L\<lparr> l_newSpawns := l_newSpawns L @ [newMissile (l_nextId L) obj2],
                       l_nextId := l_nextId L + 1,
                       l_hasChanges := True,
                       l_events := l_events L @ [ParticleBurst (position obj2) ''#ff00ff''] \<rparr>
                else L);
          (obj3, L2) = collide playerPos now prevZ obj2 L1;
          L3 = (if posZ obj3 > REMOVE_DISTANCE
                then L2\<lparr> l_hasChanges := True \<rparr>
                else L2\<lparr> l_kept := l_kept L2 @ [obj3] \<rparr>)
      in L3\<lparr> l_moved := l_moved L3 @ [obj3] \<rparr>)"

section \<open>The spawn scheduler (LevelManager, second half of the frame)\<close>

text \<open>
  The random draws of one frame, in the order the scheduler makes them:
  \<open>rLane\<close> inside \<open>getRandomLane\<close>, \<open>rIndex\<close> for the letter index, \<open>rAttempt\<close> for the
  90 percent test, \<open>rPool\<close> for the spawn pool, \<open>rAlien\<close> for alien against spikes,
  \<open>rShuffle\<close> the outcome of sorting the lanes with a random comparator, \<open>rCount\<close> for
  the size of the formation and \<open>rGem i\<close> for the gem on the \<open>i\<close>-th spike.
  \<open>Math.random\<close> returns a number in the interval from 0 (included) to 1 (excluded).
\<close>

record Rnd =
  rLane :: real
  rIndex :: real
  rAttempt :: real
  rPool :: real
  rAlien :: real
  rShuffle :: "int list \<Rightarrow> int list"
  rCount :: real
  rGem :: "nat \<Rightarrow> real"

definition getRandomLane :: "int \<Rightarrow> real \<Rightarrow> int" where
  "getRandomLane lanes u = (let mx = lanes div 2 in \<lfloor>u * real_of_int (mx * 2 + 1)\<rfloor> - mx)"

text \<open>
  The variables the scheduler reads and writes: the list \<open>keptObjects\<close>, the identifier
  supply, \<open>hasChanges\<close> and the two distance markers.
\<close>

record SpawnState =
  sp_kept :: "GameObject list"
  sp_nextId :: nat
  sp_hasChanges :: bool
  sp_nextLetterDistance :: real
  sp_nextImmortalityDistance :: real

definition mkObject ::
  "nat \<Rightarrow> ObjectType \<Rightarrow> real \<times> real \<times> real \<Rightarrow> string \<Rightarrow> GameObject" where
  "mkObject i t pos c =
     \<lparr> oid = i, otype = t, position = pos, active = True, ovalue = None, color = Some c,
       targetIndex = None, points = None, hasFired = None \<rparr>"

definition pushObject :: "GameObject \<Rightarrow> SpawnState \<Rightarrow> SpawnState" where
  "pushObject obj S = S\<lparr> sp_kept := sp_kept S @ [obj], sp_nextId := sp_nextId S + 1 \<rparr>"

fun minList :: "real list \<Rightarrow> real" where
  "minList [] = 0"
| "minList [x] = x"
| "minList (x # y # ys) = min x (minList (y # ys))"

definition availableIndices :: "GameState \<Rightarrow> nat list" where
  "availableIndices snap =
     filter (\<lambda>i. i \<notin> set (collectedLetters snap))
       [0 ..< length (getTargetCharsForLevel (level snap))]"

text \<open>
  The branch \<open>isLetterDue\<close>. An index outside the array reads \<open>undefined\<close> in the
  source, which is \<open>None\<close> here; it does not happen for a draw in [0, 1).
\<close>

definition spawnLetterDue :: "GameState \<Rightarrow> Rnd \<Rightarrow> real \<Rightarrow> SpawnState \<Rightarrow> SpawnState" where
  "spawnLetterDue snap rnd spawnZ S =
     (let lane = getRandomLane (laneCount snap) (rLane rnd);
          targetChars = getTargetCharsForLevel (level snap);
          targetColors = getTargetColorsForLevel (level snap);
          avail = availableIndices snap
      in if length avail > 0 then
           (let k = \<lfloor>rIndex rnd * real (length avail)\<rfloor>;
                chosenIndex = (if 0 \<le> k \<and> k < int (length avail)
                               then Some (avail ! nat k) else None);
                val = (case chosenIndex of None \<Rightarrow> None
                       | Some i \<Rightarrow> if i < length targetChars
                                  then Some (targetChars ! i) else None);
                col = (case chosenIndex of None \<Rightarrow> None
                       | Some i \<Rightarrow> if i < length targetColors
                                  then Some (targetColors ! i) else None);
                S1 = pushObject
                       \<lparr> oid = sp_nextId S, otype = LETTER,
                         position = (real_of_int lane * LANE_WIDTH, 1.0, spawnZ),
                         active = True, ovalue = val, color = col,
                         targetIndex = chosenIndex, points = None, hasFired = None \<rparr> S
            in S1\<lparr> sp_nextLetterDistance :=
                       sp_nextLetterDistance S1 + getLetterInterval (level snap),
                    sp_hasChanges := True \<rparr>)
         else
           (pushObject
              ((mkObject (sp_nextId S) GEM (real_of_int lane * LANE_WIDTH, 1.2, spawnZ)
                  ''#00ffff'')\<lparr> points := Some 50 \<rparr>) S)
              \<lparr> sp_hasChanges := True \<rparr>)"

definition laneRange :: "int \<Rightarrow> int list" where
  "laneRange lanes = (let maxLane = lanes div 2 in [- maxLane .. maxLane])"

definition spawnAliens :: "GameState \<Rightarrow> Rnd \<Rightarrow> real \<Rightarrow> SpawnState \<Rightarrow> SpawnState" where
  "spawnAliens snap rnd spawnZ S =
     (let availableLanes = rShuffle rnd (laneRange (laneCount snap));
          pAlien = rCount rnd;
          c1 = (if pAlien > 0.7 then min 2 (length availableLanes) else 1);
          alienCount = (if pAlien > 0.9 \<and> length availableLanes \<ge> 3 then 3 else c1)
      in fold (\<lambda>k T.
                 pushObject
                   ((mkObject (sp_nextId T) ALIEN
                       (real_of_int (availableLanes ! k) * LANE_WIDTH, 1.5, spawnZ)
                       ''#00ff00'')\<lparr> hasFired := Some False \<rparr>) T)
           [0 ..< alienCount] S)"

definition spawnSpikes :: "GameState \<Rightarrow> Rnd \<Rightarrow> real \<Rightarrow> SpawnState \<Rightarrow> SpawnState" where
  "spawnSpikes snap rnd spawnZ S =
     (let availableLanes = rShuffle rnd (laneRange (laneCount snap));
          p = rCount rnd;
          countToSpawn = (if p > 0.85 then min 3 (length availableLanes)
                          else if p > 0.60 then min 2 (length availableLanes)
                          else 1)
      in fold (\<lambda>i T.
                 (let laneX = real_of_int (availableLanes ! i) * LANE_WIDTH;
                      T1 = pushObject
                             (mkObject (sp_nextId T) OBSTACLE
                                (laneX, OBSTACLE_HEIGHT / 2, spawnZ) ''#ff0054'') T
                  in if rGem rnd i < 0.3
                     then pushObject
                            ((mkObject (sp_nextId T1) GEM
                                (laneX, OBSTACLE_HEIGHT + 1.0, spawnZ) ''#ffd700'')
                               \<lparr> points := Some 100 \<rparr>) T1
                     else T1))
           [0 ..< countToSpawn] S)"

text \<open>The branch taken with probability 90 percent when no letter is due.\<close>

definition spawnPool ::
  "GameState \<Rightarrow> Rnd \<Rightarrow> real \<Rightarrow> real \<Rightarrow> SpawnState \<Rightarrow> SpawnState" where
  "spawnPool snap rnd distanceTraveled spawnZ S =
     (let r = rPool rnd;
          canSpawnImmortality = (distanceTraveled \<ge> sp_nextImmortalityDistance S);
          immortalityChance = (if level snap = 1 then 0.035 else 0.06 :: real);
          isPowerup = (canSpawnImmortality \<and> r < immortalityChance);
          isHeartCandidate = (\<not> isPowerup \<and> r < 0.10);
          isHeart = (isHeartCandidate \<and> lives snap < maxLives snap);
          isObstacle = (\<not> isPowerup \<and> \<not> isHeart \<and> r > 0.36);
          S1 =
            (if isPowerup then
               (pushObject
                  ((mkObject (sp_nextId S) IMMORTALITY
                      (real_of_int (getRandomLane (laneCount snap) (rLane rnd)) * LANE_WIDTH,
                       1.25, spawnZ) ''#b026ff'')\<lparr> points := Some 0 \<rparr>) S)
                  \<lparr> sp_nextImmortalityDistance :=
                      distanceTraveled + (if level snap = 1 then 220 else 160) \<rparr>
             else if isHeart then
               pushObject
                 (mkObject (sp_nextId S) HEART
                    (real_of_int (getRandomLane (laneCount snap) (rLane rnd)) * LANE_WIDTH,
                     1.15, spawnZ) ''#ff2d55'') S
             else if isObstacle then
               (if level snap \<ge> 2 \<and> rAlien rnd < 0.2 * DIFFICULTY_MULT
                then spawnAliens snap rnd spawnZ S
                else spawnSpikes snap rnd spawnZ S)
             else
               pushObject
                 ((mkObject (sp_nextId S) GEM
                     (real_of_int (getRandomLane (laneCount snap) (rLane rnd)) * LANE_WIDTH,
                      1.2, spawnZ) ''#00ffff'')\<lparr> points := Some 50 \<rparr>) S)
      in S1\<lparr> sp_hasChanges := True \<rparr>)"

definition furthestZ :: "GameObject list \<Rightarrow> real" where
  "furthestZ keptObjects =
     (let staticObjects = filter (\<lambda>ob. otype ob \<noteq> MISSILE) keptObjects
      in if length staticObjects > 0 then minList (map posZ staticObjects) else -20)"

definition spawnPhase :: "GameState \<Rightarrow> Rnd \<Rightarrow> real \<Rightarrow> SpawnState \<Rightarrow> SpawnState" where
  "spawnPhase snap rnd distanceTraveled S =
     (let fz = furthestZ (sp_kept S) in
      if fz > - SPAWN_DISTANCE then
        (let minGap = 12 + (speed snap * 0.4);
             spawnZ = min (fz - minGap) (- SPAWN_DISTANCE);
             isLetterDue = (distanceTraveled \<ge> sp_nextLetterDistance S)
         in if isLetterDue then spawnLetterDue snap rnd spawnZ S
            else if rAttempt rnd > 0.1 then spawnPool snap rnd distanceTraveled spawnZ S
            else S)
      else S)"

section \<open>The running system\<close>

text \<open>
  The store together with what \<open>LevelManager\<close> keeps in its refs (the registry
  \<open>objectsRef\<close>, \<open>prevStatus\<close>, \<open>prevLevel\<close> and the three distance markers), the
  wall clock in milliseconds, the due times of the pending \<open>setTimeout\<close> callbacks and
  the identifier supply.
\<close>

record Sys =
  store :: GameState
  objects :: "GameObject list"
  prevStatus :: GameStatus
  prevLevel :: int
  distanceTraveled :: real
  nextLetterDistance :: real
  nextImmortalityDistance :: real
  clock :: int
  timers :: "int list"
  nextId :: nat

definition initialSys :: Sys where
  "initialSys =
     \<lparr> store = initialState, objects = [], prevStatus = MENU, prevLevel = 1,
       distanceTraveled = 0, nextLetterDistance = BASE_LETTER_INTERVAL,
       nextImmortalityDistance = 0, clock = 0, timers = [], nextId = 0 \<rparr>"

text \<open>
  The callback of \<open>useFrame\<close>. The values \<open>status\<close>, \<open>speed\<close>, \<open>collectedLetters\<close>,
  \<open>laneCount\<close>, \<open>lives\<close>, \<open>maxLives\<close> and \<open>level\<close> it reads are those of the last
  render, here the store as it is when the frame begins (\<open>snap\<close>); the actions it calls
  work on the current store. The result is the new system and the events sent out.
\<close>

definition loopStart :: "Sys \<Rightarrow> LoopState" where
  "loopStart sys =
     \<lparr> l_store = store sys, l_timers = timers sys, l_nextId = nextId sys,
       l_hasChanges = False, l_kept = [], l_newSpawns = [], l_events = [], l_moved = [] \<rparr>"

definition spawnStart :: "Sys \<Rightarrow> LoopState \<Rightarrow> SpawnState" where
  "spawnStart sys L =
     \<lparr> sp_kept = l_kept L @ l_newSpawns L, sp_nextId = l_nextId L,
       sp_hasChanges = l_hasChanges L,
       sp_nextLetterDistance = nextLetterDistance sys,
       sp_nextImmortalityDistance = nextImmortalityDistance sys \<rparr>"

definition frame ::
  "real \<Rightarrow> real \<times> real \<times> real \<Rightarrow> Rnd \<Rightarrow> Sys \<Rightarrow> Sys \<times> Event list" where
  "frame delta playerPos rnd sys =
     (let snap = store sys in
      if status snap \<noteq> PLAYING then (sys, [])
      else
        (let safeDelta = min delta 0.05;
             dst = speed snap * safeDelta;
             travelled = distanceTraveled sys + dst;
             L = foldl (processObj dst safeDelta playerPos (clock sys)) (loopStart sys)
                   (objects sys);
             S = spawnPhase snap rnd travelled (spawnStart sys L)
         in (sys\<lparr> store := l_store L,
                   objects := (if sp_hasChanges S then sp_kept S else l_moved L),
                   distanceTraveled := travelled,
                   nextLetterDistance := sp_nextLetterDistance S,
                   nextImmortalityDistance := sp_nextImmortalityDistance S,
                   timers := l_timers L,
                   nextId := sp_nextId S \<rparr>,
             l_events L)))"

text \<open>The effect of \<open>LevelManager\<close> that handles resets and transitions.\<close>

definition transitionEffect :: "Sys \<Rightarrow> Sys" where
  "transitionEffect sys =
     (let st = store sys;
          isRestart = (status st = PLAYING \<and> prevStatus sys = GAME_OVER);
          isMenuReset = (status st = MENU);
          isLevelUp = (level st \<noteq> prevLevel sys \<and> status st = PLAYING);
          isVictoryReset = (status st = PLAYING \<and> prevStatus sys = VICTORY);
          sys1 =
            (if isMenuReset \<or> isRestart \<or> isVictoryReset then
               sys\<lparr> objects := [], distanceTraveled := 0,
                     nextLetterDistance := getLetterInterval 1,
                     nextImmortalityDistance := 0 \<rparr>
             else if isLevelUp \<and> level st > 1 then
               sys\<lparr> objects := filter (\<lambda>obj. posZ obj > -80) (objects sys),
                     nextLetterDistance :=
                       distanceTraveled sys - SPAWN_DISTANCE + getLetterInterval (level st),
                     nextImmortalityDistance :=
                       max (nextImmortalityDistance sys) (distanceTraveled sys + 120) \<rparr>
             else if status st = GAME_OVER \<or> status st = VICTORY then
               sys\<lparr> store := setDistance \<lfloor>distanceTraveled sys\<rfloor> st \<rparr>
             else sys)
      in sys1\<lparr> prevStatus := status st, prevLevel := level st \<rparr>)"

text \<open>The effect runs after a render in which \<open>status\<close> or \<open>level\<close> has changed.\<close>

definition afterRender :: "Sys \<Rightarrow> Sys" where
  "afterRender sys =
     (if status (store sys) \<noteq> prevStatus sys \<or> level (store sys) \<noteq> prevLevel sys
      then transitionEffect sys else sys)"

text \<open>The start command of \<open>MqttController\<close> (and the buttons of the HUD).\<close>

definition startCommand :: "Sys \<Rightarrow> Sys" where
  "startCommand sys =
     sys\<lparr> store := (if status (store sys) = MENU then startGame (store sys)
                     else restartGame (store sys)) \<rparr>"

text \<open>
  \<open>activateImmortality\<close> with its \<open>setTimeout\<close>, and the passing of \<open>d\<close> milliseconds,
  which runs the callback of every timer that has become due.
\<close>

definition sysActivateImmortality :: "Sys \<Rightarrow> Sys" where
  "sysActivateImmortality sys =
     (let (st, scheduled) = activateImmortality (clock sys) (store sys)
      in sys\<lparr> store := st,
               timers := (if scheduled then timers sys @ [clock sys + 5000]
                          else timers sys) \<rparr>)"

definition elapse :: "int \<Rightarrow> Sys \<Rightarrow> Sys" where
  "elapse d sys =
     (let t = clock sys + d;
          due = filter (\<lambda>x. x \<le> t) (timers sys)
      in sys\<lparr> clock := t,
               timers := filter (\<lambda>x. \<not> x \<le> t) (timers sys),
               store := fold (\<lambda>x st. immortalityExpired st) due (store sys) \<rparr>)"

text \<open>
  What can happen to the system: a start command, a frame, time passing, and the two
  actions of the store that no component at hand calls on its own (\<open>addScore\<close>,
  \<open>advanceLevel\<close>), which a caller may invoke at any moment.
\<close>

datatype Input =
    Start
  | Frame real "real \<times> real \<times> real" Rnd
  | Elapse nat
  | AddScore int
  | AdvanceLevel

fun act :: "Input \<Rightarrow> Sys \<Rightarrow> Sys" where
  "act Start sys = startCommand sys"
| "act (Frame delta playerPos rnd) sys = fst (frame delta playerPos rnd sys)"
| "act (Elapse d) sys = elapse (int d) sys"
| "act (AddScore n) sys = sys\<lparr> store := addScore n (store sys) \<rparr>"
| "act AdvanceLevel sys = sys\<lparr> store := advanceLevel (store sys) \<rparr>"

definition sysStep :: "Input \<Rightarrow> Sys \<Rightarrow> Sys" where
  "sysStep i sys = afterRender (act i sys)"

inductive reachable :: "Sys \<Rightarrow> bool" where
  reach_init: "reachable initialSys"
| reach_step: "reachable sys \<Longrightarrow> reachable (sysStep i sys)"

text \<open>
  The inputs that the sources at hand produce: the start command, frames, whose time
  step is a reading of the renderer's clock and so not negative, and the passing of
  time; \<open>addScore\<close>, which nothing calls, changes the score only and is kept.
  \<open>advanceLevel\<close> has one caller, \<open>collectLetter\<close>, so the simulation reaches it
  through a frame and never calls it directly; called at will it would raise the speed
  without bound. \<open>played\<close> are the states of the system under these inputs.
\<close>

fun driven :: "Input \<Rightarrow> bool" where
  "driven Start \<longleftrightarrow> True"
| "driven (Frame delta playerPos rnd) \<longleftrightarrow> 0 \<le> delta"
| "driven (Elapse d) \<longleftrightarrow> True"
| "driven (AddScore n) \<longleftrightarrow> True"
| "driven AdvanceLevel \<longleftrightarrow> False"

inductive played :: "Sys \<Rightarrow> bool" where
  played_init: "played initialSys"
| played_step: "played sys \<Longrightarrow> driven i \<Longrightarrow> played (sysStep i sys)"

text \<open>
  The loop of a frame run on the registry, and the variables the scheduler starts from
  after it.
\<close>

definition loopOf :: "real \<Rightarrow> real \<times> real \<times> real \<Rightarrow> Sys \<Rightarrow> LoopState" where
  "loopOf delta playerPos sys =
     foldl (processObj (speed (store sys) * min delta 0.05) (min delta 0.05) playerPos
              (clock sys))
       (loopStart sys) (objects sys)"

definition schedulerStart :: "real \<Rightarrow> real \<times> real \<times> real \<Rightarrow> Sys \<Rightarrow> SpawnState" where
  "schedulerStart delta playerPos sys = spawnStart sys (loopOf delta playerPos sys)"

section \<open>Runs of store actions\<close>

text \<open>
  The actions of the store as values, so that a sequence of calls is a list: every
  action the store defines. \<open>ActivateImmortality\<close> carries the clock reading of the call,
  and \<open>ImmortalityExpired\<close> is the callback of its timer.
\<close>

datatype Action =
    StartGame
  | RestartGame
  | TakeDamage
  | AddScoreAction int
  | CollectGem int
  | CollectLetter nat
  | HealOne
  | SetDistance int
  | SetStatus GameStatus
  | IncreaseLevel
  | AdvanceLevelAction
  | ActivateImmortality int
  | ImmortalityExpired

fun applyAction :: "Action \<Rightarrow> GameState \<Rightarrow> GameState" where
  "applyAction StartGame s = startGame s"
| "applyAction RestartGame s = restartGame s"
| "applyAction TakeDamage s = takeDamage s"
| "applyAction (AddScoreAction n) s = addScore n s"
| "applyAction (CollectGem v) s = collectGem v s"
| "applyAction (CollectLetter i) s = collectLetter i s"
| "applyAction HealOne s = healOne s"
| "applyAction (SetDistance d) s = setDistance d s"
| "applyAction (SetStatus st) s = setStatus st s"
| "applyAction IncreaseLevel s = increaseLevel s"
| "applyAction AdvanceLevelAction s = advanceLevel s"
| "applyAction (ActivateImmortality now) s = fst (activateImmortality now s)"
| "applyAction ImmortalityExpired s = immortalityExpired s"

definition runActions :: "Action list \<Rightarrow> GameState \<Rightarrow> GameState" where
  "runActions acts s = foldl (\<lambda>st a. applyAction a st) s acts"

text \<open>The status is \<open>PLAYING\<close> before the run and after each of its actions.\<close>

fun playingThroughout :: "GameState \<Rightarrow> Action list \<Rightarrow> bool" where
  "playingThroughout s [] \<longleftrightarrow> status s = PLAYING"
| "playingThroughout s (a # acts) \<longleftrightarrow>
     status s = PLAYING \<and> playingThroughout (applyAction a s) acts"

definition isReset :: "Action \<Rightarrow> bool" where
  "isReset a \<longleftrightarrow> a = StartGame \<or> a = RestartGame"

section \<open>Properties of the store\<close>

text \<open>The invariant of the store: lives within bounds, and a lost game is frozen.\<close>

definition storeInv :: "GameState \<Rightarrow> bool" where
  "storeInv st \<longleftrightarrow>
     0 \<le> lives st \<and> lives st \<le> maxLives st \<and>
     (status st = GAME_OVER \<longrightarrow> lives st = 0 \<and> speed st = 0)"

definition livesInv :: "GameState \<Rightarrow> bool" where
  "livesInv st \<longleftrightarrow> 0 \<le> lives st \<and> lives st \<le> maxLives st"


text \<open>
  A bound on the speed of a played game: the base speed, at most 23.4 for each level
  passed (its letters and the level bonus) and at most 1.35 for each letter of the
  current level. The level stays within 1 and \<open>MAX_LEVEL\<close>, and the collected indices
  are distinct and below 12, the length of the longest target.
\<close>

definition speedBound :: "GameState \<Rightarrow> real" where
  "speedBound st =
     RUN_SPEED_BASE + (117/5) * real_of_int (level st - 1)
       + (27/20) * real (length (collectedLetters st))"

definition paceInv :: "GameState \<Rightarrow> bool" where
  "paceInv st \<longleftrightarrow>
     0 \<le> speed st \<and> speed st \<le> speedBound st \<and> 1 \<le> level st \<and> level st \<le> MAX_LEVEL \<and>
     distinct (collectedLetters st) \<and> (\<forall>i \<in> set (collectedLetters st). i < 12)"

section \<open>The registry as the frames build it\<close>

text \<open>
  The two pickups whose action can change lives, speed or status (\<open>healOne\<close> and
  \<open>collectLetter\<close>), and the order the scheduler's gap rule gives the registry: an
  object of one of these two kinds lies at least 12 behind every damage source that
  comes before it in the registry. Missiles stay ahead of the coordinate -88 at which the
  first of them can appear, and a target index is below 12.
\<close>

definition revives :: "ObjectType \<Rightarrow> bool" where
  "revives t \<longleftrightarrow> t = HEART \<or> t = LETTER"

definition indexOk :: "GameObject \<Rightarrow> bool" where
  "indexOk ob \<longleftrightarrow> (case targetIndex ob of None \<Rightarrow> True | Some i \<Rightarrow> i < 12)"

fun gapped :: "GameObject list \<Rightarrow> bool" where
  "gapped [] \<longleftrightarrow> True"
| "gapped (ob # rest) \<longleftrightarrow>
     (isDamageSource (otype ob) \<longrightarrow>
        (\<forall>p \<in> set rest. revives (otype p) \<longrightarrow> posZ p + 12 \<le> posZ ob)) \<and>
     gapped rest"

definition registryInv :: "GameObject list \<Rightarrow> bool" where
  "registryInv obs \<longleftrightarrow>
     gapped obs \<and>
     (\<forall>ob \<in> set obs. indexOk ob \<and> (otype ob = MISSILE \<longrightarrow> - 88 < posZ ob))"

definition sysInv :: "Sys \<Rightarrow> bool" where
  "sysInv sys \<longleftrightarrow>
     storeInv (store sys) \<and> paceInv (store sys) \<and> registryInv (objects sys)"

section \<open>The loop body in parts\<close>

text \<open>
  Names for the parts of \<open>processObj\<close>, used to state what it does: how far an object
  moves, the object after the move, the test that the object touches the player (active,
  inside the swept zone, within lateral reach), and the end of the loop body, which drops
  the object behind the removal distance and keeps it otherwise.
\<close>

definition moveAmountOf :: "real \<Rightarrow> real \<Rightarrow> GameObject \<Rightarrow> real" where
  "moveAmountOf dst sd obj = dst + (if otype obj = MISSILE then MISSILE_SPEED * sd else 0)"

definition moved :: "real \<Rightarrow> real \<Rightarrow> GameObject \<Rightarrow> GameObject" where
  "moved dst sd obj = setZ (posZ obj + moveAmountOf dst sd obj) obj"

definition touches :: "real \<times> real \<times> real \<Rightarrow> real \<Rightarrow> GameObject \<Rightarrow> bool" where
  "touches pp prevZ obj \<longleftrightarrow>
     active obj \<and> inZZone prevZ (posZ obj) (snd (snd pp)) \<and> \<bar>posX obj - fst pp\<bar> < 0.9"

definition keepOrDrop :: "GameObject \<Rightarrow> LoopState \<Rightarrow> LoopState" where
  "keepOrDrop obj L =
     (if posZ obj > REMOVE_DISTANCE
      then L\<lparr> l_hasChanges := True \<rparr>
      else L\<lparr> l_kept := l_kept L @ [obj] \<rparr>)\<lparr> l_moved := l_moved L @ [obj] \<rparr>"

section \<open>What the loop body does to one object\<close>

text \<open>
  The loop body in closed form. \<open>afterFire\<close> and \<open>fireLoop\<close> are the alien branch on
  the object and on the loop variables, \<open>collides\<close> is the whole collision test, and
  \<open>objAfter\<close> is the object as the loop body leaves it; \<open>processObj_parts\<close> and
  \<open>processObj_moved\<close> below show that this is what \<open>processObj\<close> computes.
\<close>

definition afterFire :: "GameObject \<Rightarrow> GameObject" where
  "afterFire obj = (if alienFires obj then obj\<lparr> hasFired := Some True \<rparr> else obj)"

definition fireLoop :: "GameObject \<Rightarrow> LoopState \<Rightarrow> LoopState" where
  "fireLoop obj L =
     (if alienFires obj
      then L\<lparr> l_newSpawns := l_newSpawns L @ [newMissile (l_nextId L) (afterFire obj)],
             l_nextId := l_nextId L + 1,
             l_hasChanges := True,
             l_events := l_events L @ [ParticleBurst (position (afterFire obj)) ''#ff00ff''] \<rparr>
      else L)"

definition collides :: "real \<times> real \<times> real \<Rightarrow> real \<Rightarrow> GameObject \<Rightarrow> bool" where
  "collides pp prevZ obj \<longleftrightarrow>
     touches pp prevZ obj \<and>
     (if isDamageSource (otype obj) then isHit (fst (snd pp)) obj
      else \<bar>posY obj - fst (snd pp)\<bar> < 2.5)"

definition objAfter :: "real \<Rightarrow> real \<Rightarrow> real \<times> real \<times> real \<Rightarrow> GameObject \<Rightarrow> GameObject" where
  "objAfter dst sd pp obj =
     (let o2 = afterFire (moved dst sd obj)
      in if collides pp (posZ obj) o2 then o2\<lparr> active := False \<rparr> else o2)"

text \<open>The scheduler has only appended objects, all active and none of them a missile.\<close>

definition appended :: "SpawnState \<Rightarrow> SpawnState \<Rightarrow> bool" where
  "appended S S' \<longleftrightarrow>
     (\<exists>created. sp_kept S' = sp_kept S @ created \<and>
        (\<forall>ob \<in> set created. otype ob \<noteq> MISSILE \<and> active ob))"

text \<open>
  The same in more detail, for the scroll coordinate \<open>z\<close> the scheduler spawns at:
  \<open>batch\<close> when none of the objects appended is a heart or a letter, \<open>spawned\<close>
  when that holds or at most one object is appended.
\<close>

definition batch :: "real \<Rightarrow> SpawnState \<Rightarrow> SpawnState \<Rightarrow> bool" where
  "batch z S S' \<longleftrightarrow>
     (\<exists>created. sp_kept S' = sp_kept S @ created \<and>
        (\<forall>ob \<in> set created.
           otype ob \<noteq> MISSILE \<and> active ob \<and> posZ ob = z \<and> indexOk ob \<and>
           \<not> revives (otype ob)))"

definition spawned :: "real \<Rightarrow> SpawnState \<Rightarrow> SpawnState \<Rightarrow> bool" where
  "spawned z S S' \<longleftrightarrow>
     (\<exists>created. sp_kept S' = sp_kept S @ created \<and>
        (\<forall>ob \<in> set created. otype ob \<noteq> MISSILE \<and> active ob \<and> posZ ob = z \<and> indexOk ob) \<and>
        ((\<forall>ob \<in> set created. \<not> revives (otype ob)) \<or> length created \<le> 1))"

text \<open>
  The form of a missile made by the alien branch (\<open>newMissile\<close>), whatever its
  identifier, lane, scroll coordinate and activity; and the number of missiles the loop
  body adds for an object over a sequence of frames, each given by its scroll step, its
  clamped time step, the position of the player, the clock and the loop variables at the
  moment the object is reached. The object goes from frame to frame as the loop body
  leaves it in the array it walks.
\<close>

definition firedMissile :: "GameObject \<Rightarrow> bool" where
  "firedMissile ob \<longleftrightarrow>
     posY ob = 1 \<and> color ob = Some ''#ff0000'' \<and> ovalue ob = None \<and>
     targetIndex ob = None \<and> points ob = None \<and> hasFired ob = None"

fun missilesFired ::
  "(real \<times> real \<times> (real \<times> real \<times> real) \<times> int \<times> LoopState) list \<Rightarrow> GameObject \<Rightarrow> nat" where
  "missilesFired [] obj = 0"
| "missilesFired ((dst, sd, pp, now, L) # steps) obj =
     (length (l_newSpawns (processObj dst sd pp now L obj)) - length (l_newSpawns L))
       + missilesFired steps (last (l_moved (processObj dst sd pp now L obj)))"

definition missilesOk :: "GameObject list \<Rightarrow> bool" where
  "missilesOk obs \<longleftrightarrow> (\<forall>ob \<in> set obs. otype ob = MISSILE \<longrightarrow> firedMissile ob)"

section \<open>Runs of the system\<close>

definition runInputs :: "Input list \<Rightarrow> Sys \<Rightarrow> Sys" where
  "runInputs is sys = foldl (\<lambda>s i. sysStep i s) sys is"

text \<open>The states a run visits, the first one included.\<close>

fun exec :: "Input list \<Rightarrow> Sys \<Rightarrow> Sys list" where
  "exec [] sys = [sys]"
| "exec (i # is) sys = sys # exec is (sysStep i sys)"

definition terminal :: "GameStatus \<Rightarrow> bool" where
  "terminal st \<longleftrightarrow> st = GAME_OVER \<or> st = VICTORY"

text \<open>
  A game that is lost. The first frame after the start draws a row of three spikes
  (\<open>rndSpikes\<close>); the frames after it draw nothing (\<open>rndNone\<close>, the ten percent case).
  After 104 such frames the spikes are three units before the player, who then stands in
  the left, the middle and the right lane for one frame each and is hit three times.
\<close>

definition rndSpikes :: Rnd where
  "rndSpikes =
     \<lparr> rLane = 0.5, rIndex = 0, rAttempt = 0.5, rPool = 0.5, rAlien = 0.9,
       rShuffle = (\<lambda>xs. xs), rCount = 0.9, rGem = (\<lambda>i. 0.5) \<rparr>"

definition rndNone :: Rnd where
  "rndNone =
     \<lparr> rLane = 0.5, rIndex = 0, rAttempt = 0, rPool = 0.5, rAlien = 0.9,
       rShuffle = (\<lambda>xs. xs), rCount = 0.9, rGem = (\<lambda>i. 0.5) \<rparr>"

definition approachInputs :: "Input list" where
  "approachInputs =
     [Start, Frame (1/20) (0, 0, 0) rndSpikes] @ replicate 104 (Frame (1/20) (0, 0, 0) rndNone)"

definition gameOverInputs :: "Input list" where
  "gameOverInputs =
     approachInputs @
     [Frame (1/20) (- (11/5), 0, 0) rndNone, Frame (1/20) (0, 0, 0) rndNone,
      Frame (1/20) (11/5, 0, 0) rndNone]"

text \<open>
  The states of that run: after the start, and with the row of spikes at \<open>z\<close> after
  \<open>hits\<close> hits.
\<close>

definition startedSys :: Sys where
  "startedSys =
     \<lparr> store = startGame initialState, objects = [], prevStatus = PLAYING, prevLevel = 1,
       distanceTraveled = 0, nextLetterDistance = 150,
       nextImmortalityDistance = 0, clock = 0, timers = [], nextId = 0 \<rparr>"

definition spike :: "nat \<Rightarrow> real \<Rightarrow> real \<Rightarrow> bool \<Rightarrow> GameObject" where
  "spike i x z a =
     (mkObject i OBSTACLE (x, OBSTACLE_HEIGHT / 2, z) ''#ff0054'')\<lparr> active := a \<rparr>"

definition spikesSys :: "real \<Rightarrow> real \<Rightarrow> bool \<Rightarrow> bool \<Rightarrow> bool \<Rightarrow> nat \<Rightarrow> Sys" where
  "spikesSys z d a0 a1 a2 hits =
     \<lparr> store = (takeDamage ^^ hits) (startGame initialState),
       objects = [spike 0 (- (11/5)) z a0, spike 1 0 z a1, spike 2 (11/5) z a2],
       prevStatus = PLAYING, prevLevel = 1, distanceTraveled = d,
       nextLetterDistance = 150, nextImmortalityDistance = 0, clock = 0, timers = [],
       nextId = 3 \<rparr>"


definition rndAlien :: Rnd where
  "rndAlien =
     \<lparr> rLane = 0.5, rIndex = 0, rAttempt = 0.5, rPool = 0.5, rAlien = 0.1,
       rShuffle = (\<lambda>xs. xs), rCount = 0, rGem = (\<lambda>i. 0.5) \<rparr>"

definition alienAt :: "real \<Rightarrow> bool \<Rightarrow> GameObject" where
  "alienAt z fired =
     (mkObject 0 ALIEN (- (22/5), 3/2, z) ''#00ff00'')\<lparr> hasFired := Some fired \<rparr>"

definition alienInputs :: "Input list" where
  "alienInputs =
     [Start, AdvanceLevel, Frame (1/20) (0, 0, 0) rndAlien] @
     replicate 20 (Frame (1/20) (0, 0, 0) rndNone) @ [Frame (1/20) (0, 0, 0) rndNone]"

definition alienSys :: "GameObject list \<Rightarrow> real \<Rightarrow> nat \<Rightarrow> Sys" where
  "alienSys obs d n =
     \<lparr> store = advanceLevel (startGame initialState), objects = obs,
       prevStatus = PLAYING, prevLevel = 2, distanceTraveled = d,
       nextLetterDistance = 105, nextImmortalityDistance = 120, clock = 0, timers = [],
       nextId = n \<rparr>"

text \<open>
  The scroll coordinate at which the scheduler places what it spawns, and two inputs of
  the scheduler: nothing kept so far with the next letter due at 150, and a first level
  in which every index of the target is already collected (the store of no run, here to
  exercise the fallback of the scheduler). Then the run in which a letter becomes due:
  after the start, 133 frames that draw nothing leave the registry empty at a distance
  of 149.625 (\<open>emptySys\<close>), and the next frame passes 150.
\<close>

definition spawnZOf :: "GameState \<Rightarrow> SpawnState \<Rightarrow> real" where
  "spawnZOf snap S =
     min (furthestZ (sp_kept S) - (12 + speed snap * 0.4)) (- SPAWN_DISTANCE)"

definition emptySpawn :: SpawnState where
  "emptySpawn =
     \<lparr> sp_kept = [], sp_nextId = 0, sp_hasChanges = False, sp_nextLetterDistance = 150,
       sp_nextImmortalityDistance = 0 \<rparr>"




lemma target_chars_1:
  "getTargetCharsForLevel 1 = [33521, 33620, 65, 73, 21019, 36896, 20048, 22253]"
  by (simp add: getTargetCharsForLevel_def getTargetTextForLevel_def LEVEL_TARGET_TEXTS_def
      normalizeTargetText_def isWhitespace_def punctuation_def)


lemma inv_startGame: "storeInv (startGame st)"
  by (simp add: storeInv_def startGame_def)

lemma inv_restartGame: "storeInv (restartGame st)"
  by (simp add: storeInv_def restartGame_def)

lemma inv_takeDamage: "storeInv st \<Longrightarrow> storeInv (takeDamage st)"
  by (auto simp add: storeInv_def takeDamage_def)

lemma inv_addScore: "storeInv st \<Longrightarrow> storeInv (addScore n st)"
  by (simp add: storeInv_def addScore_def)

lemma inv_collectGem: "storeInv st \<Longrightarrow> storeInv (collectGem n st)"
  by (simp add: storeInv_def collectGem_def)

lemma inv_setDistance: "storeInv st \<Longrightarrow> storeInv (setDistance n st)"
  by (simp add: storeInv_def setDistance_def)

lemma inv_advanceLevel: "storeInv st \<Longrightarrow> storeInv (advanceLevel st)"
  by (simp add: storeInv_def advanceLevel_def Let_def)

lemma inv_expired: "storeInv st \<Longrightarrow> storeInv (immortalityExpired st)"
  by (simp add: storeInv_def immortalityExpired_def)

lemma inv_activate: "storeInv st \<Longrightarrow> storeInv (fst (activateImmortality now st))"
  by (simp add: storeInv_def activateImmortality_def)

text \<open>
  \<open>healOne\<close> and \<open>collectLetter\<close> do not look at the status: they keep the invariant
  only where the game is not lost. A frame that has begun while playing goes on after a
  fatal hit, so that it calls them only there is shown with the registry, further down.
\<close>

lemma inv_healOne: "storeInv st \<Longrightarrow> status st \<noteq> GAME_OVER \<Longrightarrow> storeInv (healOne st)"
  by (auto simp add: storeInv_def healOne_def)

lemma inv_collectLetter:
  "storeInv st \<Longrightarrow> status st \<noteq> GAME_OVER \<Longrightarrow> storeInv (collectLetter i st)"
  by (auto simp add: storeInv_def collectLetter_def advanceLevel_def Let_def)

lemma status_collectGem: "status (collectGem n st) = status st"
  by (simp add: collectGem_def)

lemma status_healOne: "status (healOne st) = status st"
  by (simp add: healOne_def)

lemma status_activate: "status (fst (activateImmortality now st)) = status st"
  by (simp add: activateImmortality_def)

lemma status_collectLetter:
  "status st \<noteq> GAME_OVER \<Longrightarrow> status (collectLetter i st) \<noteq> GAME_OVER"
  by (auto simp add: collectLetter_def advanceLevel_def Let_def)

lemma pickup_preserves:
  assumes gem: "\<And>st v. P st \<Longrightarrow> P (collectGem v st)"
    and letter: "\<And>st i. P st \<Longrightarrow> P (collectLetter i st)"
    and buff: "\<And>st t. P st \<Longrightarrow> P (fst (activateImmortality t st))"
    and heal: "\<And>st. P st \<Longrightarrow> P (healOne st)"
    and "P (l_store L)"
  shows "P (l_store (pickup now obj L))"
  using assms(5) unfolding pickup_def Let_def case_prod_beta
  by (simp add: gem letter buff heal)

lemma collide_preserves:
  assumes gem: "\<And>st v. P st \<Longrightarrow> P (collectGem v st)"
    and letter: "\<And>st i. P st \<Longrightarrow> P (collectLetter i st)"
    and buff: "\<And>st t. P st \<Longrightarrow> P (fst (activateImmortality t st))"
    and heal: "\<And>st. P st \<Longrightarrow> P (healOne st)"
    and hit: "\<And>st. P st \<Longrightarrow> P (takeDamage st)"
    and "P (l_store L)"
  shows "P (l_store (snd (collide pp now pz obj L)))"
  using assms(6) hit[of "l_store L"]
    pickup_preserves[where P = P and L = L and now = now and obj = obj, OF gem letter buff heal]
  by (auto simp add: collide_def playerHitListener_def Let_def split: prod.splits)

lemma processObj_preserves:
  assumes gem: "\<And>st v. P st \<Longrightarrow> P (collectGem v st)"
    and letter: "\<And>st i. P st \<Longrightarrow> P (collectLetter i st)"
    and buff: "\<And>st t. P st \<Longrightarrow> P (fst (activateImmortality t st))"
    and heal: "\<And>st. P st \<Longrightarrow> P (healOne st)"
    and hit: "\<And>st. P st \<Longrightarrow> P (takeDamage st)"
    and "P (l_store L)"
  shows "P (l_store (processObj dst sd pp now L obj))"
proof -
  define obj1 where
    "obj1 = setZ (posZ obj + (dst + (if otype obj = MISSILE then MISSILE_SPEED * sd else 0))) obj"
  define obj2 where
    "obj2 = (if alienFires obj1 then obj1\<lparr> hasFired := Some True \<rparr> else obj1)"
  define L1 where
    "L1 = (if alienFires obj1
           then L\<lparr> l_newSpawns := l_newSpawns L @ [newMissile (l_nextId L) obj2],
                  l_nextId := l_nextId L + 1,
                  l_hasChanges := True,
                  l_events := l_events L @ [ParticleBurst (position obj2) ''#ff00ff''] \<rparr>
           else L)"
  have p1: "P (l_store L1)"
    using assms(6) by (simp add: L1_def)
  have "P (l_store (snd (collide pp now (posZ obj) obj2 L1)))"
    by (rule collide_preserves[where P = P]; fact)
  then show ?thesis
    unfolding processObj_def Let_def obj1_def[symmetric] obj2_def[symmetric] L1_def[symmetric]
    by (simp add: case_prod_beta)
qed

lemma loop_preserves:
  assumes gem: "\<And>st v. P st \<Longrightarrow> P (collectGem v st)"
    and letter: "\<And>st i. P st \<Longrightarrow> P (collectLetter i st)"
    and buff: "\<And>st t. P st \<Longrightarrow> P (fst (activateImmortality t st))"
    and heal: "\<And>st. P st \<Longrightarrow> P (healOne st)"
    and hit: "\<And>st. P st \<Longrightarrow> P (takeDamage st)"
  shows "P (l_store L) \<Longrightarrow> P (l_store (foldl (processObj dst sd pp now) L objs))"
proof (induction objs arbitrary: L)
  case Nil
  then show ?case by simp
next
  case (Cons obj objs)
  have "P (l_store (processObj dst sd pp now L obj))"
    by (rule processObj_preserves[where P = P]; fact)
  then show ?case using Cons.IH by simp
qed

lemma frame_store_preserves:
  assumes gem: "\<And>st v. P st \<Longrightarrow> P (collectGem v st)"
    and letter: "\<And>st i. P st \<Longrightarrow> P (collectLetter i st)"
    and buff: "\<And>st t. P st \<Longrightarrow> P (fst (activateImmortality t st))"
    and heal: "\<And>st. P st \<Longrightarrow> P (healOne st)"
    and hit: "\<And>st. P st \<Longrightarrow> P (takeDamage st)"
    and "P (store sys)"
  shows "P (store (fst (frame delta pp rnd sys)))"
proof (cases "status (store sys) = PLAYING")
  case False
  then show ?thesis
    using assms(6) by (simp add: frame_def)
next
  case True
  have p0: "P (l_store (loopStart sys))"
    using assms(6) by (simp add: loopStart_def)
  have "P (l_store (foldl (processObj (speed (store sys) * min delta 0.05) (min delta 0.05)
                              pp (clock sys)) (loopStart sys) (objects sys)))"
    by (rule loop_preserves[where P = P]; fact)
  then show ?thesis
    using True unfolding frame_def Let_def by simp
qed

lemma storeInv_fold_expired:
  "storeInv st \<Longrightarrow> storeInv (fold (\<lambda>x st. immortalityExpired st) due st)"
  by (induction due arbitrary: st) (simp_all add: inv_expired)

lemma notMenu_collectLetter: "status st \<noteq> MENU \<Longrightarrow> status (collectLetter i st) \<noteq> MENU"
  by (auto simp add: collectLetter_def advanceLevel_def Let_def)

lemma notMenu_takeDamage: "status st \<noteq> MENU \<Longrightarrow> status (takeDamage st) \<noteq> MENU"
  by (simp add: takeDamage_def)

lemma notMenu_frame:
  "status (store sys) \<noteq> MENU \<Longrightarrow> status (store (fst (frame delta pp rnd sys))) \<noteq> MENU"
  by (rule frame_store_preserves[where P = "\<lambda>st. status st \<noteq> MENU"])
     (simp_all add: status_collectGem status_healOne status_activate notMenu_collectLetter
        notMenu_takeDamage)

lemma status_fold_expired:
  "status (fold (\<lambda>x st. immortalityExpired st) due st) = status st"
  by (induction due arbitrary: st) (simp_all add: immortalityExpired_def)

lemma status_afterRender: "status (store (afterRender sys)) = status (store sys)"
  by (simp add: afterRender_def transitionEffect_def Let_def setDistance_def)

lemma notMenu_act: "status (store sys) \<noteq> MENU \<Longrightarrow> status (store (act i sys)) \<noteq> MENU"
proof (cases i)
  case (Frame delta pp rnd)
  assume "status (store sys) \<noteq> MENU"
  then show ?thesis
    using Frame notMenu_frame[of sys delta pp rnd] by simp
qed (auto simp add: startCommand_def startGame_def restartGame_def
       elapse_def Let_def status_fold_expired addScore_def advanceLevel_def)

lemma menu_act:
  assumes "status (store sys) = MENU"
  shows "status (store (act i sys)) = MENU \<or> status (store (act i sys)) = PLAYING"
  using assms
  by (cases i)
     (auto simp add: startCommand_def startGame_def frame_def
        elapse_def Let_def status_fold_expired addScore_def advanceLevel_def)

lemma menu_step:
  assumes "status (store sys) = MENU"
  shows "status (store (sysStep i sys)) = MENU \<or> status (store (sysStep i sys)) = PLAYING"
  using menu_act[of sys i] assms
  by (auto simp add: sysStep_def status_afterRender)

lemma menu_path:
  "reachable sys \<Longrightarrow> status (store sys) = MENU \<Longrightarrow> terminal (status (store (last (exec is sys))))
     \<Longrightarrow> PLAYING \<in> set (map (\<lambda>s. status (store s)) (exec is sys))"
proof (induction "is" arbitrary: sys)
  case Nil
  then show ?case by (simp add: terminal_def)
next
  case (Cons i "is")
  have r: "reachable (sysStep i sys)" using Cons.prems(1) by (rule reachable.reach_step)
  have l: "last (exec (i # is) sys) = last (exec is (sysStep i sys))"
    by (cases "is") simp_all
  consider "status (store (sysStep i sys)) = MENU" | "status (store (sysStep i sys)) = PLAYING"
    using menu_step[OF Cons.prems(2)] by blast
  then show ?case
  proof cases
    case 1
    then have "PLAYING \<in> set (map (\<lambda>s. status (store s)) (exec is (sysStep i sys)))"
      using Cons.IH[OF r] Cons.prems(3) l by simp
    then show ?thesis by simp
  next
    case 2
    have "sysStep i sys \<in> set (exec is (sysStep i sys))" by (cases "is") simp_all
    then show ?thesis using 2 by force
  qed
qed

section \<open>The loop body and the frame, decomposed\<close>

lemma processObj_parts:
  "processObj dst sd pp now L obj =
     keepOrDrop (fst (collide pp now (posZ obj) (afterFire (moved dst sd obj))
                        (fireLoop (moved dst sd obj) L)))
       (snd (collide pp now (posZ obj) (afterFire (moved dst sd obj))
               (fireLoop (moved dst sd obj) L)))"
  unfolding processObj_def Let_def case_prod_beta moved_def[symmetric, unfolded moveAmountOf_def]
  by (simp add: keepOrDrop_def afterFire_def fireLoop_def)

lemma collide_fst:
  "fst (collide pp now prevZ obj L) = (if collides pp prevZ obj then obj\<lparr> active := False \<rparr> else obj)"
  by (cases pp) (simp add: collide_def touches_def collides_def)

lemma collide_fields:
  "l_kept (snd (collide pp now prevZ obj L)) = l_kept L"
  "l_moved (snd (collide pp now prevZ obj L)) = l_moved L"
  "l_newSpawns (snd (collide pp now prevZ obj L)) = l_newSpawns L"
  "l_nextId (snd (collide pp now prevZ obj L)) = l_nextId L"
  by (cases pp; simp add: collide_def pickup_def Let_def case_prod_beta)+

lemma collide_store:
  "l_store (snd (collide pp now prevZ obj L)) =
     (if collides pp prevZ obj
      then (if isDamageSource (otype obj) then playerHitListener (l_store L)
            else l_store (pickup now obj L))
      else l_store L)"
  by (cases pp) (simp add: collide_def touches_def collides_def)


lemma collide_hasChanges_mono:
  "l_hasChanges L \<Longrightarrow> l_hasChanges (snd (collide pp now prevZ obj L))"
  by (cases pp) (simp add: collide_def pickup_def Let_def case_prod_beta)

lemma keepOrDrop_fields:
  "l_store (keepOrDrop obj L) = l_store L" "l_events (keepOrDrop obj L) = l_events L"
  "l_newSpawns (keepOrDrop obj L) = l_newSpawns L" "l_moved (keepOrDrop obj L) = l_moved L @ [obj]"
  "l_kept (keepOrDrop obj L) = l_kept L @ filter (\<lambda>ob. \<not> posZ ob > REMOVE_DISTANCE) [obj]"
  "l_hasChanges (keepOrDrop obj L) \<longleftrightarrow> l_hasChanges L \<or> posZ obj > REMOVE_DISTANCE"
  by (simp_all add: keepOrDrop_def)

lemma fireLoop_fields:
  "l_store (fireLoop obj L) = l_store L" "l_kept (fireLoop obj L) = l_kept L"
  "l_moved (fireLoop obj L) = l_moved L"
  "filter (\<lambda>e. e = PlayerHit) (l_events (fireLoop obj L)) = filter (\<lambda>e. e = PlayerHit) (l_events L)"
  "l_newSpawns (fireLoop obj L) =
     l_newSpawns L @ (if alienFires obj then [newMissile (l_nextId L) (afterFire obj)] else [])"
  "l_hasChanges (fireLoop obj L) \<longleftrightarrow> l_hasChanges L \<or> alienFires obj"
  by (simp_all add: fireLoop_def)

lemma afterFire_fields:
  "otype (afterFire obj) = otype obj" "active (afterFire obj) = active obj"
  "position (afterFire obj) = position obj" "targetIndex (afterFire obj) = targetIndex obj"
  "points (afterFire obj) = points obj" "color (afterFire obj) = color obj"
  "ovalue (afterFire obj) = ovalue obj" "oid (afterFire obj) = oid obj"
  "hasFired (afterFire obj) = (if alienFires obj then Some True else hasFired obj)"
  by (simp_all add: afterFire_def)

lemma moved_fields:
  "otype (moved dst sd obj) = otype obj" "active (moved dst sd obj) = active obj"
  "position (moved dst sd obj) = (posX obj, posY obj, posZ obj + moveAmountOf dst sd obj)"
  "targetIndex (moved dst sd obj) = targetIndex obj" "points (moved dst sd obj) = points obj"
  "color (moved dst sd obj) = color obj" "ovalue (moved dst sd obj) = ovalue obj"
  "oid (moved dst sd obj) = oid obj" "hasFired (moved dst sd obj) = hasFired obj"
  by (simp_all add: moved_def setZ_def)

lemma collides_afterFire_moved:
  "collides (px, py, pz) (posZ obj) (afterFire (moved dst sd obj)) \<longleftrightarrow>
     active obj \<and> posZ obj < pz + 2 \<and> posZ obj + moveAmountOf dst sd obj > pz - 2 \<and>
     \<bar>posX obj - px\<bar> < 0.9 \<and>
     (if isDamageSource (otype obj) then isHit py obj else \<bar>posY obj - py\<bar> < 2.5)"
  by (simp add: collides_def touches_def inZZone_def isHit_def posX_def posY_def posZ_def
      afterFire_fields moved_fields)

lemma pickup_afterFire_moved:
  "l_store (pickup now (afterFire (moved dst sd obj)) L) =
     (if otype obj = GEM then collectGem (pointsOr50 obj) (l_store L)
      else if otype obj = LETTER \<and> targetIndex obj \<noteq> None
        then collectLetter (the (targetIndex obj)) (l_store L)
      else if otype obj = IMMORTALITY then fst (activateImmortality now (l_store L))
      else if otype obj = HEART then healOne (l_store L)
      else l_store L)"
  by (auto simp add: pickup_def Let_def case_prod_beta pointsOr50_def afterFire_fields
      moved_fields)

lemma pickup_store_fire: "l_store (pickup now obj (fireLoop o1 L)) = l_store (pickup now obj L)"
  by (auto simp add: pickup_def Let_def case_prod_beta fireLoop_fields)

lemma processObj_moved:
  "l_moved (processObj dst sd pp now L obj) = l_moved L @ [objAfter dst sd pp obj]"
  by (simp add: processObj_parts keepOrDrop_fields collide_fields collide_fst fireLoop_fields
      objAfter_def Let_def)

lemma processObj_kept:
  "l_kept (processObj dst sd pp now L obj) =
     l_kept L @ filter (\<lambda>ob. \<not> posZ ob > REMOVE_DISTANCE) [objAfter dst sd pp obj]"
  by (simp add: processObj_parts keepOrDrop_fields collide_fields collide_fst fireLoop_fields
      objAfter_def Let_def)

lemma processObj_newSpawns:
  "l_newSpawns (processObj dst sd pp now L obj) =
     l_newSpawns L @ (if alienFires (moved dst sd obj)
                      then [newMissile (l_nextId L) (afterFire (moved dst sd obj))] else [])"
  by (simp add: processObj_parts keepOrDrop_fields collide_fields fireLoop_fields)

lemma processObj_store:
  "l_store (processObj dst sd (px, py, pz) now L obj) =
     (if collides (px, py, pz) (posZ obj) (afterFire (moved dst sd obj))
      then (if isDamageSource (otype obj) then playerHitListener (l_store L)
            else l_store (pickup now (afterFire (moved dst sd obj)) L))
      else l_store L)"
  by (simp add: processObj_parts keepOrDrop_fields collide_store afterFire_fields moved_fields
      pickup_store_fire fireLoop_fields)


lemma active_objAfter:
  "active (objAfter dst sd pp obj) \<longleftrightarrow>
     active obj \<and> \<not> collides pp (posZ obj) (afterFire (moved dst sd obj))"
  by (simp add: objAfter_def Let_def afterFire_fields moved_fields)

lemma posZ_objAfter: "posZ (objAfter dst sd pp obj) = posZ obj + moveAmountOf dst sd obj"
  by (simp add: objAfter_def Let_def posZ_def afterFire_fields moved_fields)

lemma processObj_unchanged:
  assumes "\<not> l_hasChanges (processObj dst sd pp now L obj)"
  shows "\<not> l_hasChanges L \<and> \<not> alienFires (moved dst sd obj) \<and>
         \<not> posZ (objAfter dst sd pp obj) > REMOVE_DISTANCE"
proof -
  define C where
    "C = collide pp now (posZ obj) (afterFire (moved dst sd obj)) (fireLoop (moved dst sd obj) L)"
  have a: "\<not> l_hasChanges (snd C)" "\<not> posZ (fst C) > REMOVE_DISTANCE"
    using assms by (simp_all add: processObj_parts keepOrDrop_fields C_def)
  have "\<not> l_hasChanges (fireLoop (moved dst sd obj) L)"
    using a(1) collide_hasChanges_mono unfolding C_def by blast
  moreover have "fst C = objAfter dst sd pp obj"
    by (simp add: C_def collide_fst objAfter_def Let_def)
  ultimately show ?thesis
    using a(2) by (simp add: fireLoop_fields)
qed

lemma loop_moved:
  "l_moved (foldl (processObj dst sd pp now) L objs) = l_moved L @ map (objAfter dst sd pp) objs"
  by (induction objs arbitrary: L) (simp_all add: processObj_moved)

lemma loop_kept:
  "l_kept (foldl (processObj dst sd pp now) L objs) =
     l_kept L @ filter (\<lambda>ob. \<not> posZ ob > REMOVE_DISTANCE) (map (objAfter dst sd pp) objs)"
  by (induction objs arbitrary: L) (simp_all add: processObj_kept)

lemma loop_unchanged:
  "\<not> l_hasChanges (foldl (processObj dst sd pp now) L objs) \<Longrightarrow>
     l_newSpawns (foldl (processObj dst sd pp now) L objs) = l_newSpawns L \<and>
     filter (\<lambda>ob. \<not> posZ ob > REMOVE_DISTANCE) (map (objAfter dst sd pp) objs)
       = map (objAfter dst sd pp) objs \<and> \<not> l_hasChanges L"
proof (induction objs arbitrary: L)
  case Nil
  then show ?case by simp
next
  case (Cons obj objs)
  have ih: "l_newSpawns (foldl (processObj dst sd pp now) (processObj dst sd pp now L obj) objs)
        = l_newSpawns (processObj dst sd pp now L obj)"
      "filter (\<lambda>ob. \<not> posZ ob > REMOVE_DISTANCE) (map (objAfter dst sd pp) objs)
       = map (objAfter dst sd pp) objs"
      "\<not> l_hasChanges (processObj dst sd pp now L obj)"
    using Cons.IH[of "processObj dst sd pp now L obj"] Cons.prems by simp_all
  have u: "\<not> l_hasChanges L" "\<not> alienFires (moved dst sd obj)"
      "\<not> posZ (objAfter dst sd pp obj) > REMOVE_DISTANCE"
    using processObj_unchanged[OF ih(3)] by simp_all
  show ?case
    using ih(1,2) u by (simp add: processObj_newSpawns)
qed

lemma appended_refl: "appended S S"
  by (simp add: appended_def)

lemma appended_trans: "appended S T \<Longrightarrow> appended T U \<Longrightarrow> appended S U"
  by (fastforce simp add: appended_def)

lemma appended_push:
  "otype ob \<noteq> MISSILE \<Longrightarrow> active ob \<Longrightarrow> appended S (pushObject ob S)"
  by (simp add: appended_def pushObject_def)

lemma appended_field:
  "appended S T \<Longrightarrow> appended S (T\<lparr> sp_hasChanges := b \<rparr>)"
  "appended S T \<Longrightarrow> appended S (T\<lparr> sp_nextLetterDistance := x \<rparr>)"
  "appended S T \<Longrightarrow> appended S (T\<lparr> sp_nextImmortalityDistance := x \<rparr>)"
  by (simp_all add: appended_def)

lemma appended_fold:
  assumes "\<And>k T. appended T (f k T)"
  shows "appended S (fold f ks S)"
proof (induction ks arbitrary: S)
  case Nil
  show ?case by (simp add: appended_refl)
next
  case (Cons k ks)
  show ?case
    using appended_trans[OF assms[of S k] Cons.IH[of "f k S"]] by simp
qed

lemma otype_mkObject: "otype (mkObject i t pos c) = t" "active (mkObject i t pos c)"
  by (simp_all add: mkObject_def)

lemma appended_spawnAliens: "appended S (spawnAliens snap rnd z S)"
  unfolding spawnAliens_def Let_def
  by (rule appended_fold) (simp add: appended_push otype_mkObject)

lemma appended_spawnSpikes: "appended S (spawnSpikes snap rnd z S)"
  unfolding spawnSpikes_def Let_def
proof (rule appended_fold)
  fix k :: nat and T :: SpawnState
  let ?ob = "mkObject (sp_nextId T) OBSTACLE
      (real_of_int (rShuffle rnd (laneRange (laneCount snap)) ! k) * LANE_WIDTH,
       OBSTACLE_HEIGHT / 2, z) ''#ff0054''"
  have 1: "appended T (pushObject ?ob T)"
    by (simp add: appended_push otype_mkObject)
  have 2: "appended (pushObject ?ob T) (pushObject (g\<lparr> points := Some 100 \<rparr>) (pushObject ?ob T))"
    if "otype g = GEM" "active g" for g
    using that by (simp add: appended_push)
  show "appended T
          (if rGem rnd k < 0.3
           then pushObject
                  ((mkObject (sp_nextId (pushObject ?ob T)) GEM
                      (real_of_int (rShuffle rnd (laneRange (laneCount snap)) ! k) * LANE_WIDTH,
                       OBSTACLE_HEIGHT + 1.0, z) ''#ffd700'')\<lparr> points := Some 100 \<rparr>)
                  (pushObject ?ob T)
           else pushObject ?ob T)"
    using 1 appended_trans[OF 1 2] by (simp add: otype_mkObject)
qed

lemma appended_spawnPool: "appended S (spawnPool snap rnd d z S)"
  unfolding spawnPool_def Let_def
  by (simp add: appended_field appended_push otype_mkObject appended_spawnAliens
      appended_spawnSpikes)

lemma appended_spawnLetterDue: "appended S (spawnLetterDue snap rnd z S)"
  unfolding spawnLetterDue_def Let_def
  by (simp add: appended_field appended_push otype_mkObject)

lemma appended_spawnPhase: "appended S (spawnPhase snap rnd d S)"
  unfolding spawnPhase_def Let_def
  by (simp add: appended_refl appended_spawnPool appended_spawnLetterDue)

lemma hasChanges_set: "sp_hasChanges (T\<lparr> sp_hasChanges := True \<rparr>)"
  by simp

lemma hasChanges_spawnPool: "sp_hasChanges (spawnPool snap rnd d z S)"
  unfolding spawnPool_def Let_def by (rule hasChanges_set)

lemma hasChanges_spawnLetterDue: "sp_hasChanges (spawnLetterDue snap rnd z S)"
  unfolding spawnLetterDue_def Let_def
  by (simp split del: if_split add: if_distrib[of sp_hasChanges] cong: if_cong)

lemma changes_spawnPhase:
  "spawnPhase snap rnd d S = S \<or> sp_hasChanges (spawnPhase snap rnd d S)"
  unfolding spawnPhase_def Let_def
  by (simp add: hasChanges_spawnPool hasChanges_spawnLetterDue)

lemma frame_objects:
  assumes "status (store sys) = PLAYING"
  shows "\<exists>created.
     objects (fst (frame delta pp rnd sys)) =
       filter (\<lambda>ob. \<not> posZ ob > REMOVE_DISTANCE)
         (map (objAfter (speed (store sys) * min delta 0.05) (min delta 0.05) pp) (objects sys))
       @ l_newSpawns (foldl (processObj (speed (store sys) * min delta 0.05) (min delta 0.05)
                              pp (clock sys)) (loopStart sys) (objects sys))
       @ created \<and>
     (\<forall>ob \<in> set created. otype ob \<noteq> MISSILE \<and> active ob)"
proof -
  define dst where "dst = speed (store sys) * min delta 0.05"
  define sd where "sd = min delta (0.05 :: real)"
  define L where "L = foldl (processObj dst sd pp (clock sys)) (loopStart sys) (objects sys)"
  define S where "S = spawnPhase (store sys) rnd (distanceTraveled sys + dst) (spawnStart sys L)"
  have obj: "objects (fst (frame delta pp rnd sys)) = (if sp_hasChanges S then sp_kept S else l_moved L)"
    using assms by (simp add: frame_def Let_def S_def L_def dst_def sd_def)
  have kept: "l_kept L = filter (\<lambda>ob. \<not> posZ ob > REMOVE_DISTANCE) (map (objAfter dst sd pp) (objects sys))"
    by (simp add: L_def loop_kept loopStart_def)
  have mv: "l_moved L = map (objAfter dst sd pp) (objects sys)"
    by (simp add: L_def loop_moved loopStart_def)
  obtain created where c: "sp_kept S = sp_kept (spawnStart sys L) @ created"
      "\<forall>ob \<in> set created. otype ob \<noteq> MISSILE \<and> active ob"
    using appended_spawnPhase[of "spawnStart sys L" "store sys" rnd "distanceTraveled sys + dst"]
    by (auto simp add: appended_def S_def)
  have "\<exists>created.
     objects (fst (frame delta pp rnd sys)) =
       filter (\<lambda>ob. \<not> posZ ob > REMOVE_DISTANCE) (map (objAfter dst sd pp) (objects sys))
       @ l_newSpawns L @ created \<and>
     (\<forall>ob \<in> set created. otype ob \<noteq> MISSILE \<and> active ob)"
  proof (cases "sp_hasChanges S")
    case True
    then have "objects (fst (frame delta pp rnd sys)) =
        filter (\<lambda>ob. \<not> posZ ob > REMOVE_DISTANCE) (map (objAfter dst sd pp) (objects sys))
        @ l_newSpawns L @ created"
      using obj c(1) kept by (simp add: spawnStart_def)
    then show ?thesis
      using c(2) by (intro exI[of _ created]) simp
  next
    case False
    then have "S = spawnStart sys L"
      using changes_spawnPhase[of "store sys" rnd "distanceTraveled sys + dst" "spawnStart sys L"]
      by (simp add: S_def)
    then have "\<not> l_hasChanges L"
      using False by (simp add: spawnStart_def)
    then have u: "l_newSpawns L = []"
        "filter (\<lambda>ob. \<not> posZ ob > REMOVE_DISTANCE) (map (objAfter dst sd pp) (objects sys))
           = map (objAfter dst sd pp) (objects sys)"
      using loop_unchanged[of dst sd pp "clock sys" "loopStart sys" "objects sys"]
      by (simp_all add: L_def loopStart_def)
    have "objects (fst (frame delta pp rnd sys)) =
        filter (\<lambda>ob. \<not> posZ ob > REMOVE_DISTANCE) (map (objAfter dst sd pp) (objects sys))
        @ l_newSpawns L @ []"
      using obj False mv u by simp
    then show ?thesis
      by (intro exI[of _ "[]"]) simp
  qed
  then show ?thesis
    unfolding dst_def sd_def L_def .
qed

lemma hasFired_objAfter:
  "hasFired (objAfter dst sd pp obj) =
     (if alienFires (moved dst sd obj) then Some True else hasFired obj)"
  by (simp add: objAfter_def Let_def afterFire_fields moved_fields)

lemma fired_never_again: "hasFired obj = Some True \<Longrightarrow> \<not> alienFires (moved dst sd obj)"
  by (simp add: alienFires_def moved_fields)

lemma step_fired:
  "length (l_newSpawns (processObj dst sd pp now L obj)) - length (l_newSpawns L)
     = (if alienFires (moved dst sd obj) then 1 else 0)"
  by (simp add: processObj_newSpawns)

lemma step_last: "last (l_moved (processObj dst sd pp now L obj)) = objAfter dst sd pp obj"
  by (simp add: processObj_moved)

lemma missilesFired_after: "hasFired obj = Some True \<Longrightarrow> missilesFired steps obj = 0"
proof (induction steps arbitrary: obj)
  case Nil
  show ?case by simp
next
  case (Cons st steps)
  obtain dst sd pp now L where st: "st = (dst, sd, pp, now, L)"
    by (cases st) auto
  have "hasFired (objAfter dst sd pp obj) = Some True"
    using Cons.prems by (simp add: hasFired_objAfter)
  then show ?case
    using Cons.IH Cons.prems st by (simp add: fired_never_again step_fired step_last)
qed

lemma missilesFired_le: "missilesFired steps obj \<le> 1"
proof (induction steps arbitrary: obj)
  case Nil
  show ?case by simp
next
  case (Cons st steps)
  obtain dst sd pp now L where st: "st = (dst, sd, pp, now, L)"
    by (cases st) auto
  show ?case
  proof (cases "alienFires (moved dst sd obj)")
    case True
    then have "hasFired (objAfter dst sd pp obj) = Some True"
      by (simp add: hasFired_objAfter)
    then show ?thesis
      using st True by (simp add: missilesFired_after step_fired step_last)
  next
    case False
    then show ?thesis
      using st Cons.IH[of "objAfter dst sd pp obj"] by (simp add: step_fired step_last)
  qed
qed

lemma alienFires_moved:
  "alienFires (moved dst sd obj) \<longleftrightarrow>
     otype obj = ALIEN \<and> active obj \<and> hasFired obj \<noteq> Some True \<and>
     posZ obj + moveAmountOf dst sd obj > - 90"
  by (simp add: alienFires_def posZ_def moved_fields)

lemma newMissile_afterFire: "newMissile i (afterFire ob) = newMissile i ob"
  by (simp add: newMissile_def posX_def posZ_def afterFire_fields)

lemma newMissile_fields:
  "otype (newMissile i ob) = MISSILE" "position (newMissile i ob) = (posX ob, 1, posZ ob + 2)"
  "active (newMissile i ob)" "firedMissile (newMissile i ob)"
  by (simp_all add: newMissile_def firedMissile_def posY_def)

lemma objAfter_missile:
  "otype (objAfter dst sd pp ob) = otype ob"
  "otype ob = MISSILE \<Longrightarrow> firedMissile (objAfter dst sd pp ob) = firedMissile ob"
  by (simp_all add: objAfter_def Let_def afterFire_fields moved_fields firedMissile_def posY_def
      alienFires_def)

lemma step_newSpawns:
  assumes "\<forall>m \<in> set (l_newSpawns L). otype m = MISSILE \<and> firedMissile m \<and> active m"
  shows "\<forall>m \<in> set (l_newSpawns (processObj dst sd pp now L obj)).
          otype m = MISSILE \<and> firedMissile m \<and> active m"
proof
  fix m
  assume m: "m \<in> set (l_newSpawns (processObj dst sd pp now L obj))"
  then have "m \<in> set (l_newSpawns L) \<or> m = newMissile (l_nextId L) (afterFire (moved dst sd obj))"
    unfolding processObj_newSpawns by (cases "alienFires (moved dst sd obj)") auto
  then show "otype m = MISSILE \<and> firedMissile m \<and> active m"
  proof
    assume "m \<in> set (l_newSpawns L)"
    then show ?thesis using assms by blast
  next
    assume "m = newMissile (l_nextId L) (afterFire (moved dst sd obj))"
    then show ?thesis
      using newMissile_fields(1,3,4)[of "l_nextId L" "afterFire (moved dst sd obj)"] by blast
  qed
qed


lemma loop_newSpawns_fired:
  "(\<forall>m \<in> set (l_newSpawns L). otype m = MISSILE \<and> firedMissile m \<and> active m) \<Longrightarrow>
   (\<forall>m \<in> set (l_newSpawns (foldl (processObj dst sd pp now) L objs)).
      otype m = MISSILE \<and> firedMissile m \<and> active m)"
proof (induction objs arbitrary: L)
  case Nil
  then show ?case by simp
next
  case (Cons obj objs)
  have "\<forall>m \<in> set (l_newSpawns (processObj dst sd pp now L obj)).
          otype m = MISSILE \<and> firedMissile m \<and> active m"
    using Cons.prems by (rule step_newSpawns)
  then have "\<forall>m \<in> set (l_newSpawns (foldl (processObj dst sd pp now)
                 (processObj dst sd pp now L obj) objs)).
          otype m = MISSILE \<and> firedMissile m \<and> active m"
    by (rule Cons.IH)
  then show ?case
    by (simp only: foldl.simps)
qed

lemma missilesOk_frame:
  assumes "missilesOk (objects sys)"
  shows "missilesOk (objects (fst (frame delta pp rnd sys)))"
proof (cases "status (store sys) = PLAYING")
  case False
  then show ?thesis
    using assms by (simp add: frame_def)
next
  case True
  obtain created where c:
    "objects (fst (frame delta pp rnd sys)) =
       filter (\<lambda>ob. \<not> posZ ob > REMOVE_DISTANCE)
         (map (objAfter (speed (store sys) * min delta 0.05) (min delta 0.05) pp) (objects sys))
       @ l_newSpawns (foldl (processObj (speed (store sys) * min delta 0.05) (min delta 0.05)
                              pp (clock sys)) (loopStart sys) (objects sys))
       @ created"
    "\<forall>ob \<in> set created. otype ob \<noteq> MISSILE \<and> active ob"
    using frame_objects[OF True, of delta pp rnd] by blast
  have n: "\<forall>m \<in> set (l_newSpawns (foldl (processObj (speed (store sys) * min delta 0.05)
                (min delta 0.05) pp (clock sys)) (loopStart sys) (objects sys))).
             otype m = MISSILE \<and> firedMissile m \<and> active m"
    by (rule loop_newSpawns_fired) (simp add: loopStart_def)
  show ?thesis
    unfolding c(1) missilesOk_def
    using assms n c(2) by (auto simp add: missilesOk_def objAfter_missile)
qed

lemma objects_afterRender:
  "missilesOk (objects sys) \<Longrightarrow> missilesOk (objects (afterRender sys))"
  by (auto simp add: afterRender_def transitionEffect_def Let_def missilesOk_def)

lemma missilesOk_act: "missilesOk (objects sys) \<Longrightarrow> missilesOk (objects (act i sys))"
proof (cases i)
  case (Frame delta pp rnd)
  assume "missilesOk (objects sys)"
  then show ?thesis
    using Frame missilesOk_frame[of sys delta pp rnd] by simp
qed (simp_all add: startCommand_def elapse_def Let_def)

lemma missilesOk_reachable: "reachable sys \<Longrightarrow> missilesOk (objects sys)"
proof (induction rule: reachable.induct)
  case reach_init
  show ?case by (simp add: initialSys_def missilesOk_def)
next
  case (reach_step sys i)
  then show ?case
    by (simp add: sysStep_def objects_afterRender missilesOk_act)
qed

section \<open>A run that ends in a lost game\<close>

lemma processObj_passive:
  assumes "\<not> alienFires (moved dst sd obj)" "\<not> touches pp (posZ obj) (moved dst sd obj)"
  shows "processObj dst sd pp now L obj = keepOrDrop (moved dst sd obj) L"
  using assms
  unfolding processObj_def Let_def moved_def[symmetric, unfolded moveAmountOf_def]
  by (cases pp) (auto simp add: collide_def touches_def keepOrDrop_def)

lemma processObj_hit:
  assumes "\<not> alienFires (moved dst sd obj)" "touches pp (posZ obj) (moved dst sd obj)"
    "isDamageSource (otype obj)" "isHit (fst (snd pp)) obj"
  shows "processObj dst sd pp now L obj =
     keepOrDrop ((moved dst sd obj)\<lparr> active := False \<rparr>)
       (L\<lparr> l_store := takeDamage (l_store L),
          l_events := l_events L @ [PlayerHit] @
              (if otype obj = MISSILE
               then [ParticleBurst (position (moved dst sd obj)) ''#ff4400''] else []),
          l_hasChanges := True \<rparr>)"
  using assms
  unfolding processObj_def Let_def moved_def[symmetric, unfolded moveAmountOf_def]
  by (cases pp)
     (auto simp add: collide_def touches_def keepOrDrop_def moved_def setZ_def isHit_def posY_def
        posZ_def posX_def playerHitListener_def)

lemma spawnPhase_none:
  assumes "rAttempt rnd \<le> 0.1" "d < sp_nextLetterDistance S"
  shows "spawnPhase snap rnd d S = S"
  using assms by (simp add: spawnPhase_def Let_def)

lemma moved_spike: "moved dst sd (spike i x z a) = spike i x (z + dst) a"
  by (simp add: moved_def moveAmountOf_def spike_def mkObject_def setZ_def posX_def posY_def posZ_def)

lemma spike_simps:
  "posZ (spike i x z a) = z" "posX (spike i x z a) = x" "active (spike i x z a) = a"
  "otype (spike i x z a) = OBSTACLE" "(spike i x z a)\<lparr> active := b \<rparr> = spike i x z b"
  by (simp_all add: spike_def mkObject_def posX_def posZ_def)

lemma spike_no_fire: "\<not> alienFires (spike i x z a)"
  by (simp add: alienFires_def spike_simps)

lemma startGame_fields:
  "status (startGame s) = PLAYING" "speed (startGame s) = 22.5" "level (startGame s) = 1"
  "laneCount (startGame s) = 3" "lives (startGame s) = 3" "maxLives (startGame s) = 3"
  "collectedLetters (startGame s) = []" "isImmortalityActive (startGame s) = False"
  by (simp_all add: startGame_def RUN_SPEED_BASE_def)

lemma rndSpikes_fields:
  "rAttempt rndSpikes = 0.5" "rPool rndSpikes = 0.5" "rAlien rndSpikes = 0.9"
  "rShuffle rndSpikes = (\<lambda>xs. xs)" "rCount rndSpikes = 0.9" "rGem rndSpikes = (\<lambda>i. 0.5)"
  by (simp_all add: rndSpikes_def)

lemma rndNone_fields: "rAttempt rndNone = 0"
  by (simp add: rndNone_def)

lemma started: "sysStep Start initialSys = startedSys"
  by (simp add: sysStep_def afterRender_def transitionEffect_def startCommand_def initialSys_def
      startedSys_def startGame_fields initialState_def BASE_LETTER_INTERVAL_def Let_def)

lemma spawn3:
  "spawnSpikes (startGame initialState) rndSpikes (- 120)
     \<lparr> sp_kept = [], sp_nextId = 0, sp_hasChanges = False, sp_nextLetterDistance = 150,
       sp_nextImmortalityDistance = 0 \<rparr>
   = \<lparr> sp_kept = [spike 0 ((- (11/5))) (- 120) True, spike 1 0 (- 120) True, spike 2 (11/5) (- 120) True],
       sp_nextId = 3, sp_hasChanges = False, sp_nextLetterDistance = 150,
       sp_nextImmortalityDistance = 0 \<rparr>"
  by (simp add: spawnSpikes_def rndSpikes_fields laneRange_def startGame_fields
      upto.simps pushObject_def spike_def mkObject_def LANE_WIDTH_def Let_def eval_nat_numeral)

lemma spawnPhase3:
  "d < 150 \<Longrightarrow> spawnPhase (startGame initialState) rndSpikes d
      \<lparr> sp_kept = [], sp_nextId = 0, sp_hasChanges = False, sp_nextLetterDistance = 150,
       sp_nextImmortalityDistance = 0 \<rparr>
    = \<lparr> sp_kept = [spike 0 ((- (11/5))) (- 120) True, spike 1 0 (- 120) True, spike 2 (11/5) (- 120) True],
       sp_nextId = 3, sp_hasChanges = True, sp_nextLetterDistance = 150,
       sp_nextImmortalityDistance = 0 \<rparr>"
  by (simp add: spawnPhase_def furthestZ_def spawnPool_def Let_def SPAWN_DISTANCE_def
      rndSpikes_fields startGame_fields DIFFICULTY_MULT_def spawn3)

lemma run_spawn:
  "sysStep (Frame (1/20) (0, 0, 0) rndSpikes) startedSys
     = spikesSys (- 120) (9/8) True True True 0"
  by (simp add: sysStep_def frame_def loopStart_def spawnStart_def Let_def
      startedSys_def startGame_fields spawnPhase3 afterRender_def spikesSys_def)

lemma run_idle:
  assumes "z + (9/8) \<le> - 2" "d + (9/8) < 150"
  shows "sysStep (Frame (1/20) (px, 0, 0) rndNone) (spikesSys z d True True True 0)
     = spikesSys (z + (9/8)) (d + (9/8)) True True True 0"
  using assms
  by (simp add: sysStep_def frame_def loopStart_def spawnStart_def Let_def
      spikesSys_def startGame_fields
      processObj_passive moved_spike spike_no_fire touches_def spike_simps inZZone_def
      keepOrDrop_def REMOVE_DISTANCE_def spawnPhase_none rndNone_fields afterRender_def)

lemma spike_isHit: "isHit 0 (spike i x z a)"
  by (simp add: isHit_def spike_simps OBSTACLE_HEIGHT_def)

lemma damage_fields:
  "status (takeDamage (startGame s)) = PLAYING" "speed (takeDamage (startGame s)) = 22.5"
  "level (takeDamage (startGame s)) = 1"
  "status (takeDamage (takeDamage (startGame s))) = PLAYING"
  "speed (takeDamage (takeDamage (startGame s))) = 22.5"
  "level (takeDamage (takeDamage (startGame s))) = 1"
  "status (takeDamage (takeDamage (takeDamage (startGame s)))) = GAME_OVER"
  "level (takeDamage (takeDamage (takeDamage (startGame s)))) = 1"
  "lives (takeDamage (takeDamage (takeDamage (startGame s)))) = 0"
  "speed (takeDamage (takeDamage (takeDamage (startGame s)))) = 0"
  by (simp_all add: takeDamage_def startGame_def RUN_SPEED_BASE_def)

lemma run_hit0:
  assumes "- 2 < z + (9/8)" "z < 2" "d + (9/8) < 150"
  shows "sysStep (Frame (1/20) ((- (11/5)), 0, 0) rndNone) (spikesSys z d True True True 0)
     = spikesSys (z + (9/8)) (d + (9/8)) False True True 1"
  using assms
  by (simp add: sysStep_def frame_def loopStart_def spawnStart_def Let_def
      spikesSys_def startGame_fields damage_fields
      processObj_passive processObj_hit moved_spike spike_no_fire touches_def spike_simps
      inZZone_def isDamageSource_def spike_isHit
      keepOrDrop_def REMOVE_DISTANCE_def spawnPhase_none rndNone_fields afterRender_def)

lemma run_hit1:
  assumes "- 2 < z + (9/8)" "z < 2" "d + (9/8) < 150"
  shows "sysStep (Frame (1/20) (0, 0, 0) rndNone) (spikesSys z d False True True 1)
     = spikesSys (z + (9/8)) (d + (9/8)) False False True 2"
  using assms
  by (simp add: sysStep_def frame_def loopStart_def spawnStart_def Let_def
      spikesSys_def startGame_fields damage_fields eval_nat_numeral
      processObj_passive processObj_hit moved_spike spike_no_fire touches_def spike_simps
      inZZone_def isDamageSource_def spike_isHit
      keepOrDrop_def REMOVE_DISTANCE_def spawnPhase_none rndNone_fields afterRender_def)

lemma run_hit2:
  assumes "- 2 < z + (9/8)" "z < 2" "d + (9/8) < 150"
  shows "sysStep (Frame (1/20) ((11/5), 0, 0) rndNone) (spikesSys z d False False True 2)
     = (spikesSys (z + (9/8)) (d + (9/8)) False False False 3)
         \<lparr> store := setDistance \<lfloor>d + (9/8)\<rfloor> ((takeDamage ^^ 3) (startGame initialState)),
           prevStatus := GAME_OVER \<rparr>"
  using assms
  by (simp add: sysStep_def frame_def loopStart_def spawnStart_def Let_def
      spikesSys_def startGame_fields damage_fields eval_nat_numeral
      processObj_passive processObj_hit moved_spike spike_no_fire touches_def spike_simps
      inZZone_def isDamageSource_def spike_isHit transitionEffect_def
      keepOrDrop_def REMOVE_DISTANCE_def spawnPhase_none rndNone_fields afterRender_def)

lemma run_idle_n:
  assumes "z + real n * (9/8) \<le> - 2" "d + real n * (9/8) < 150"
  shows "((sysStep (Frame (1/20) (0, 0, 0) rndNone)) ^^ n) (spikesSys z d True True True 0)
     = spikesSys (z + real n * (9/8)) (d + real n * (9/8)) True True True 0"
  using assms
proof (induction n)
  case 0
  show ?case by simp
next
  case (Suc n)
  have e: "real (Suc n) * (9/8) = real n * (9/8) + 9/8"
    by (simp add: ring_distribs add_divide_distrib)
  have n0: "0 \<le> real n * (9/8)" by simp
  have a: "z + real n * (9/8) \<le> - 2" "d + real n * (9/8) < 150"
    using Suc.prems e n0 by linarith+
  have b: "(z + real n * (9/8)) + (9/8) \<le> - 2" "(d + real n * (9/8)) + (9/8) < 150"
    using Suc.prems e by linarith+
  have "((sysStep (Frame (1/20) (0, 0, 0) rndNone)) ^^ Suc n) (spikesSys z d True True True 0)
      = sysStep (Frame (1/20) (0, 0, 0) rndNone) (spikesSys (z + real n * (9/8)) (d + real n * (9/8)) True True True 0)"
    using Suc.IH[OF a] by simp
  also have "\<dots> = spikesSys ((z + real n * (9/8)) + (9/8)) ((d + real n * (9/8)) + (9/8)) True True True 0"
    by (rule run_idle[OF b])
  also have "\<dots> = spikesSys (z + real (Suc n) * (9/8)) (d + real (Suc n) * (9/8)) True True True 0"
    by (simp only: e add.assoc)
  finally show ?case .
qed

lemma runInputs_append: "runInputs (xs @ ys) sys = runInputs ys (runInputs xs sys)"
  by (simp add: runInputs_def)

lemma runInputs_replicate: "runInputs (replicate n i) sys = ((sysStep i) ^^ n) sys"
  by (induction n arbitrary: sys) (simp_all add: runInputs_def funpow_swap1)

lemma reachable_runInputs: "reachable sys \<Longrightarrow> reachable (runInputs is sys)"
  by (induction "is" arbitrary: sys) (simp_all add: runInputs_def reachable.reach_step)

lemma run_approach:
  "runInputs approachInputs initialSys = spikesSys (- 3) (945/8) True True True 0"
proof -
  have 1: "runInputs [Start, Frame (1/20) (0, 0, 0) rndSpikes] initialSys
       = spikesSys (- 120) (9/8) True True True 0"
    by (simp only: runInputs_def foldl.simps started run_spawn)
  have 2: "runInputs (replicate 104 (Frame (1/20) (0, 0, 0) rndNone))
             (spikesSys (- 120) (9/8) True True True 0)
       = spikesSys (- 3) (945/8) True True True 0"
    using run_idle_n[of "- 120" 104 "9/8"] by (simp add: runInputs_replicate)
  show ?thesis
    unfolding approachInputs_def runInputs_append 1 2 ..
qed

lemma hit_frames:
  "sysStep (Frame (1/20) (- (11/5), 0, 0) rndNone) (spikesSys (- 3) (945/8) True True True 0)
     = spikesSys (- (15/8)) (477/4) False True True 1"
  "sysStep (Frame (1/20) (0, 0, 0) rndNone) (spikesSys (- (15/8)) (477/4) False True True 1)
     = spikesSys (- (3/4)) (963/8) False False True 2"
  "sysStep (Frame (1/20) (11/5, 0, 0) rndNone) (spikesSys (- (3/4)) (963/8) False False True 2)
     = (spikesSys (3/8) (243/2) False False False 3)
         \<lparr> store := setDistance 121 ((takeDamage ^^ 3) (startGame initialState)),
           prevStatus := GAME_OVER \<rparr>"
  using run_hit0[of "- 3" "945/8"] run_hit1[of "- (15/8)" "477/4"] run_hit2[of "- (3/4)" "963/8"]
  by simp_all

lemma run_gameOver:
  "runInputs gameOverInputs initialSys
     = (spikesSys (3/8) (243/2) False False False 3)
         \<lparr> store := setDistance 121 ((takeDamage ^^ 3) (startGame initialState)),
           prevStatus := GAME_OVER \<rparr>"
  unfolding gameOverInputs_def runInputs_append run_approach
  by (simp only: runInputs_def foldl.simps hit_frames)

lemma gameOver_fields:
  "status (store (runInputs gameOverInputs initialSys)) = GAME_OVER"
  "lives (store (runInputs gameOverInputs initialSys)) = 0"
  "maxLives (store (runInputs gameOverInputs initialSys)) = 3"
  "speed (store (runInputs gameOverInputs initialSys)) = 0"
  unfolding run_gameOver
  by (simp_all add: setDistance_def eval_nat_numeral damage_fields takeDamage_def startGame_def)

section \<open>Lives and the lost game\<close>

lemma target_len:
  "8 \<le> length (getTargetCharsForLevel lvl) \<and> length (getTargetCharsForLevel lvl) \<le> 12"
proof -
  have "max 1 (min 3 lvl) = 1 \<or> max 1 (min 3 lvl) = 2 \<or> max 1 (min 3 lvl) = 3"
    by arith
  then show ?thesis
    unfolding getTargetCharsForLevel_def getTargetTextForLevel_def
    by (elim disjE)
       (simp_all add: LEVEL_TARGET_TEXTS_def normalizeTargetText_def isWhitespace_def
          punctuation_def)
qed

subsection \<open>Lives within bounds\<close>

text \<open>Every action the system applies keeps the lives between 0 and \<open>maxLives\<close>.\<close>

lemma lives_takeDamage: "livesInv st \<Longrightarrow> livesInv (takeDamage st)"
  by (auto simp add: livesInv_def takeDamage_def)

lemma lives_collectGem: "livesInv st \<Longrightarrow> livesInv (collectGem v st)"
  by (simp add: livesInv_def collectGem_def)

lemma lives_collectLetter: "livesInv st \<Longrightarrow> livesInv (collectLetter i st)"
  by (simp add: livesInv_def collectLetter_def advanceLevel_def Let_def)

lemma lives_activate: "livesInv st \<Longrightarrow> livesInv (fst (activateImmortality t st))"
  by (simp add: livesInv_def activateImmortality_def)

lemma lives_healOne: "livesInv st \<Longrightarrow> livesInv (healOne st)"
  by (auto simp add: livesInv_def healOne_def)

lemma lives_fold_expired:
  "livesInv st \<Longrightarrow> livesInv (fold (\<lambda>x st. immortalityExpired st) due st)"
  by (induction due arbitrary: st) (simp_all add: livesInv_def immortalityExpired_def)

lemma lives_frame: "livesInv (store sys) \<Longrightarrow> livesInv (store (fst (frame delta pp rnd sys)))"
  by (rule frame_store_preserves[where P = livesInv])
     (simp_all add: lives_takeDamage lives_collectGem lives_collectLetter lives_activate
        lives_healOne)

lemma lives_act: "livesInv (store sys) \<Longrightarrow> livesInv (store (act i sys))"
proof (cases i)
  case (Frame delta pp rnd)
  assume "livesInv (store sys)"
  then show ?thesis
    using Frame lives_frame[of sys delta pp rnd] by simp
next
  case (Elapse d)
  assume "livesInv (store sys)"
  then show ?thesis
    using Elapse by (simp add: elapse_def Let_def lives_fold_expired)
qed (simp_all add: livesInv_def startCommand_def startGame_def restartGame_def addScore_def
       advanceLevel_def Let_def)

lemma store_afterRender:
  "store (afterRender sys) = store sys \<or>
   store (afterRender sys) = setDistance \<lfloor>distanceTraveled sys\<rfloor> (store sys)"
  by (simp add: afterRender_def transitionEffect_def Let_def)

lemma lives_afterRender: "livesInv (store sys) \<Longrightarrow> livesInv (store (afterRender sys))"
  using store_afterRender[of sys] by (auto simp add: livesInv_def setDistance_def)

lemma lives_reachable: "reachable sys \<Longrightarrow> livesInv (store sys)"
proof (induction rule: reachable.induct)
  case reach_init
  show ?case
    by (simp add: initialSys_def initialState_def livesInv_def)
next
  case (reach_step sys i)
  then show ?case
    by (simp add: sysStep_def lives_afterRender lives_act)
qed

subsection \<open>A free index while playing\<close>






lemma set_availableIndices:
  "set (availableIndices snap) =
     {i. i < length (getTargetCharsForLevel (level snap)) \<and> i \<notin> set (collectedLetters snap)}"
  by (auto simp add: availableIndices_def)












subsection \<open>A bound on the speed\<close>

text \<open>
  No action lowers the speed below 0, and in a played game it stays below 85.5: each
  letter adds at most 1.35, each of the two level changes 7.2.
\<close>

lemma bounded_length:
  assumes "distinct xs" "\<forall>i \<in> set xs. i < (12 :: nat)"
  shows "length xs \<le> 12"
proof -
  have "set xs \<subseteq> {..<12}" using assms(2) by auto
  then have "card (set xs) \<le> card {..<(12 :: nat)}"
    by (rule card_mono[OF finite_lessThan])
  then show ?thesis
    using distinct_card[OF assms(1)] by simp
qed

lemma perLetter_le:
  assumes "8 \<le> n"
  shows "RUN_SPEED_BASE * ((LETTER_SPEED_TOTAL_FRACTION * DIFFICULTY_MULT) / real (max 1 n)) \<le> 27/20"
proof -
  have "8 \<le> real (max 1 n)" using assms by simp
  then have "1 / real (max 1 n) \<le> 1 / 8"
    by (simp add: field_simps)
  then have "(54/5) * (1 / real (max 1 n)) \<le> (54/5) * (1 / 8)"
    by (rule mult_left_mono) simp
  then show ?thesis
    by (simp add: RUN_SPEED_BASE_def LETTER_SPEED_TOTAL_FRACTION_def DIFFICULTY_MULT_def)
qed

lemma perLetter_pos:
  "0 < RUN_SPEED_BASE * ((LETTER_SPEED_TOTAL_FRACTION * DIFFICULTY_MULT) / real (max 1 n))"
proof -
  have "0 < real (max 1 n)" by simp
  then show ?thesis
    by (simp add: RUN_SPEED_BASE_def LETTER_SPEED_TOTAL_FRACTION_def DIFFICULTY_MULT_def)
qed

lemma pace_speed: "paceInv st \<Longrightarrow> 0 \<le> speed st \<and> speed st \<le> 171/2"
proof -
  assume p: "paceInv st"
  have l: "length (collectedLetters st) \<le> 12"
    using p by (simp add: paceInv_def bounded_length)
  have lr: "real_of_int (level st) \<le> 3"
    using p by (simp add: paceInv_def MAX_LEVEL_def)
  have nr: "real (length (collectedLetters st)) \<le> 12"
    using l by simp
  have "speedBound st = 45/2 + (117/5) * (real_of_int (level st) - 1)
          + (27/20) * real (length (collectedLetters st))"
    by (simp add: speedBound_def RUN_SPEED_BASE_def)
  then have "speedBound st \<le> 171/2"
    using lr nr by argo
  then show ?thesis
    using p by (simp add: paceInv_def)
qed

lemma pace_start: "paceInv (startGame st)" "paceInv (restartGame st)"
  by (simp_all add: paceInv_def speedBound_def startGame_def restartGame_def MAX_LEVEL_def
      RUN_SPEED_BASE_def)

lemma pace_takeDamage: "paceInv st \<Longrightarrow> paceInv (takeDamage st)"
proof -
  assume p: "paceInv st"
  have "0 \<le> speedBound st" using p by (simp add: paceInv_def)
  moreover have "speedBound (st\<lparr> lives := 0, status := GAME_OVER, speed := 0 \<rparr>) = speedBound st"
    "speedBound (st\<lparr> lives := lives st - 1 \<rparr>) = speedBound st"
    by (simp_all add: speedBound_def)
  ultimately show ?thesis
    using p by (simp add: paceInv_def takeDamage_def)
qed

lemma pace_collectGem: "paceInv st \<Longrightarrow> paceInv (collectGem v st)"
  by (simp add: paceInv_def speedBound_def collectGem_def)

lemma pace_activate: "paceInv st \<Longrightarrow> paceInv (fst (activateImmortality t st))"
  by (simp add: paceInv_def speedBound_def activateImmortality_def)

lemma pace_healOne: "paceInv st \<Longrightarrow> paceInv (healOne st)"
  by (simp add: paceInv_def speedBound_def healOne_def)

lemma pace_expired: "paceInv st \<Longrightarrow> paceInv (immortalityExpired st)"
  by (simp add: paceInv_def speedBound_def immortalityExpired_def)

lemma pace_fold_expired:
  "paceInv st \<Longrightarrow> paceInv (fold (\<lambda>x st. immortalityExpired st) due st)"
  by (induction due arbitrary: st) (simp_all add: pace_expired)

lemma pace_advanceLevel:
  assumes "paceInv st" "level st < MAX_LEVEL"
  shows "paceInv (advanceLevel st)"
proof -
  have l: "real (length (collectedLetters st)) \<le> 12"
    using assms(1) bounded_length[of "collectedLetters st"] by (simp add: paceInv_def)
  have s: "speed st \<le> RUN_SPEED_BASE + (117/5) * (real_of_int (level st) - 1)
             + (27/20) * real (length (collectedLetters st))"
    using assms(1) by (simp add: paceInv_def speedBound_def)
  have e: "RUN_SPEED_BASE * 0.40 * DIFFICULTY_MULT = 36/5"
    by (simp add: RUN_SPEED_BASE_def DIFFICULTY_MULT_def)
  have "speed st + 36/5 \<le> RUN_SPEED_BASE + (117/5) * real_of_int (level st)"
    using s l by argo
  then have "speed st + RUN_SPEED_BASE * 0.40 * DIFFICULTY_MULT
          \<le> RUN_SPEED_BASE + (117/5) * real_of_int (level st)"
    by (simp only: e)
  moreover have "0 \<le> speed st + RUN_SPEED_BASE * 0.40 * DIFFICULTY_MULT"
    using assms(1) by (simp add: paceInv_def RUN_SPEED_BASE_def DIFFICULTY_MULT_def)
  ultimately show ?thesis
    using assms by (simp add: paceInv_def speedBound_def advanceLevel_def Let_def)
qed

lemma pace_collectLetter:
  assumes "paceInv st" "i < 12"
  shows "paceInv (collectLetter i st)"
proof (cases "i \<in> set (collectedLetters st)")
  case True
  then show ?thesis
    using assms by (simp add: collectLetter_def Let_def)
next
  case False
  define per where "per = RUN_SPEED_BASE * ((LETTER_SPEED_TOTAL_FRACTION * DIFFICULTY_MULT)
      / real (max 1 (length (getTargetCharsForLevel (level st)))))"
  define s1 where "s1 = st\<lparr> collectedLetters := collectedLetters st @ [i], speed := speed st + per \<rparr>"
  have p0: "0 < per" unfolding per_def by (rule perLetter_pos)
  have p1: "per \<le> 27/20"
    unfolding per_def using target_len[of "level st"] by (intro perLetter_le) simp
  have b: "speedBound s1 = speedBound st + 27/20"
    by (simp add: speedBound_def s1_def)
  have i1: "paceInv s1"
    using assms False p0 p1 b by (simp add: paceInv_def) (simp add: s1_def)
  have l1: "level s1 = level st"
    by (simp add: s1_def)
  have c: "collectLetter i st =
      (if length (collectedLetters st) + 1 = length (getTargetCharsForLevel (level st))
       then (if level st < MAX_LEVEL then advanceLevel s1
             else s1\<lparr> status := VICTORY, score := score s1 + 5000 \<rparr>)
       else s1)"
    using False by (simp add: collectLetter_def Let_def s1_def per_def)
  have v: "paceInv (s1\<lparr> status := VICTORY, score := score s1 + 5000 \<rparr>)"
    using i1 by (simp add: paceInv_def speedBound_def)
  show ?thesis
    using c i1 v pace_advanceLevel[of s1] l1 by simp
qed

subsection \<open>The store through the loop of a frame\<close>

text \<open>
  With the step of the frame below 8 and the gaps of the registry, the loop keeps the
  invariant of the store: once a hit has lost the game, every heart and letter still to
  come in the registry lies at least 12 behind the object that hit, out of the zone of
  this frame.
\<close>

lemma moveAmountOf_static: "otype obj \<noteq> MISSILE \<Longrightarrow> moveAmountOf dst sd obj = dst"
  by (simp add: moveAmountOf_def)

lemma revives_static: "revives t \<Longrightarrow> t \<noteq> MISSILE \<and> \<not> isDamageSource t"
  by (auto simp add: revives_def isDamageSource_def)

lemma step_store:
  assumes g: "isDamageSource (otype obj) \<longrightarrow>
        (\<forall>p \<in> set objs. revives (otype p) \<longrightarrow> posZ p + 12 \<le> posZ obj)"
    and d: "dst < 8"
    and ix: "indexOk obj"
    and inv: "storeInv (l_store L)" "paceInv (l_store L)"
    and over: "status (l_store L) = GAME_OVER \<longrightarrow>
        (\<forall>p \<in> set (obj # objs). revives (otype p) \<longrightarrow>
           \<not> (posZ p < pz + 2 \<and> posZ p + dst > pz - 2))"
  shows "storeInv (l_store (processObj dst sd (px, py, pz) now L obj)) \<and>
         paceInv (l_store (processObj dst sd (px, py, pz) now L obj)) \<and>
         (status (l_store (processObj dst sd (px, py, pz) now L obj)) = GAME_OVER \<longrightarrow>
            (\<forall>p \<in> set objs. revives (otype p) \<longrightarrow>
               \<not> (posZ p < pz + 2 \<and> posZ p + dst > pz - 2)))"
proof -
  let ?L = "processObj dst sd (px, py, pz) now L obj"
  let ?c = "collides (px, py, pz) (posZ obj) (afterFire (moved dst sd obj))"
  let ?far = "\<forall>p \<in> set objs. revives (otype p) \<longrightarrow> \<not> (posZ p < pz + 2 \<and> posZ p + dst > pz - 2)"
  have rest: "?far" if "status (l_store L) = GAME_OVER"
    using over that by simp
  show ?thesis
  proof (cases ?c)
    case False
    then have "l_store ?L = l_store L"
      by (simp add: processObj_store)
    then show ?thesis
      using inv rest by simp
  next
    case True
    then have c: "active obj" "posZ obj < pz + 2" "posZ obj + moveAmountOf dst sd obj > pz - 2"
      by (simp_all add: collides_afterFire_moved)
    show ?thesis
    proof (cases "isDamageSource (otype obj)")
      case dmg: True
      have s: "l_store ?L = takeDamage (l_store L)"
        using True dmg by (simp add: processObj_store playerHitListener_def)
      have far: ?far
      proof (intro ballI impI)
        fix p assume "p \<in> set objs" "revives (otype p)"
        then have "posZ p + 12 \<le> posZ obj"
          using g dmg by blast
        then show "\<not> (posZ p < pz + 2 \<and> posZ p + dst > pz - 2)"
          using c(2) d by linarith
      qed
      show ?thesis
        unfolding s using inv far by (simp add: inv_takeDamage pace_takeDamage)
    next
      case nd: False
      have s: "l_store ?L =
          (if otype obj = GEM then collectGem (pointsOr50 obj) (l_store L)
           else if otype obj = LETTER \<and> targetIndex obj \<noteq> None
             then collectLetter (the (targetIndex obj)) (l_store L)
           else if otype obj = IMMORTALITY then fst (activateImmortality now (l_store L))
           else if otype obj = HEART then healOne (l_store L)
           else l_store L)"
        using True nd by (simp add: processObj_store pickup_afterFire_moved)
      show ?thesis
      proof (cases "revives (otype obj)")
        case rv: True
        then have m: "moveAmountOf dst sd obj = dst"
          using revives_static[of "otype obj"] by (simp add: moveAmountOf_static)
        have alive: "status (l_store L) \<noteq> GAME_OVER"
        proof
          assume "status (l_store L) = GAME_OVER"
          then have "\<not> (posZ obj < pz + 2 \<and> posZ obj + dst > pz - 2)"
            using over rv by simp
          then show False
            using c(2,3) m by simp
        qed
        have k: "storeInv (l_store ?L) \<and> paceInv (l_store ?L) \<and> status (l_store ?L) \<noteq> GAME_OVER"
        proof (cases "otype obj = HEART")
          case True
          then have "l_store ?L = healOne (l_store L)"
            using s by simp
          then show ?thesis
            using inv alive by (simp add: inv_healOne pace_healOne status_healOne)
        next
          case False
          then have lt: "otype obj = LETTER"
            using rv by (simp add: revives_def)
          show ?thesis
          proof (cases "targetIndex obj")
            case None
            then have "l_store ?L = l_store L"
              using s lt by simp
            then show ?thesis
              using inv alive by simp
          next
            case (Some i)
            then have i: "i < 12"
              using ix by (simp add: indexOk_def)
            have "l_store ?L = collectLetter i (l_store L)"
              using s lt Some by simp
            then show ?thesis
              using inv alive i
              by (simp add: inv_collectLetter pace_collectLetter status_collectLetter)
          qed
        qed
        then show ?thesis by simp
      next
        case nr: False
        then have t: "otype obj \<noteq> HEART" "otype obj \<noteq> LETTER"
          by (simp_all add: revives_def)
        have "l_store ?L = collectGem (pointsOr50 obj) (l_store L) \<or>
              l_store ?L = fst (activateImmortality now (l_store L)) \<or>
              l_store ?L = l_store L"
          using s t by simp
        then show ?thesis
          using inv rest
          by (elim disjE)
             (simp_all add: inv_collectGem pace_collectGem status_collectGem inv_activate
                pace_activate status_activate)
      qed
    qed
  qed
qed

lemma loop_store:
  assumes d: "dst < 8"
  shows "gapped objs \<Longrightarrow> \<forall>ob \<in> set objs. indexOk ob \<Longrightarrow>
     storeInv (l_store L) \<Longrightarrow> paceInv (l_store L) \<Longrightarrow>
     (status (l_store L) = GAME_OVER \<longrightarrow>
        (\<forall>p \<in> set objs. revives (otype p) \<longrightarrow>
           \<not> (posZ p < pz + 2 \<and> posZ p + dst > pz - 2))) \<Longrightarrow>
     storeInv (l_store (foldl (processObj dst sd (px, py, pz) now) L objs)) \<and>
     paceInv (l_store (foldl (processObj dst sd (px, py, pz) now) L objs))"
proof (induction objs arbitrary: L)
  case Nil
  then show ?case by simp
next
  case (Cons obj objs)
  have g: "isDamageSource (otype obj) \<longrightarrow>
        (\<forall>p \<in> set objs. revives (otype p) \<longrightarrow> posZ p + 12 \<le> posZ obj)"
      "gapped objs"
    using Cons.prems(1) by simp_all
  have ix: "indexOk obj" "\<forall>ob \<in> set objs. indexOk ob"
    using Cons.prems(2) by simp_all
  note st = step_store[where px = px and py = py and sd = sd and now = now,
      OF g(1) d ix(1) Cons.prems(3) Cons.prems(4) Cons.prems(5)]
  have "storeInv (l_store (foldl (processObj dst sd (px, py, pz) now)
            (processObj dst sd (px, py, pz) now L obj) objs)) \<and>
        paceInv (l_store (foldl (processObj dst sd (px, py, pz) now)
            (processObj dst sd (px, py, pz) now L obj) objs))"
    using st by (intro Cons.IH[OF g(2) ix(2)]) blast+
  then show ?case
    by (simp only: foldl.simps)
qed

subsection \<open>The gaps of the registry\<close>

text \<open>
  Moving the objects keeps the gaps, as hearts and letters move by the step of the frame
  and nothing moves by less; removing objects keeps them too.
\<close>

lemma gapped_append:
  "gapped (xs @ ys) \<longleftrightarrow>
     gapped xs \<and> gapped ys \<and>
     (\<forall>x \<in> set xs. isDamageSource (otype x) \<longrightarrow>
        (\<forall>p \<in> set ys. revives (otype p) \<longrightarrow> posZ p + 12 \<le> posZ x))"
  by (induction xs) auto

lemma gapped_filter: "gapped xs \<Longrightarrow> gapped (filter P xs)"
  by (induction xs) auto

lemma gapped_plain: "\<forall>p \<in> set ys. \<not> revives (otype p) \<Longrightarrow> gapped ys"
  by (induction ys) auto

lemma gapped_short: "length ys \<le> 1 \<Longrightarrow> gapped ys"
  by (cases ys) auto

lemma moveAmountOf_ge: "0 \<le> sd \<Longrightarrow> dst \<le> moveAmountOf dst sd obj"
  by (simp add: moveAmountOf_def MISSILE_SPEED_def DIFFICULTY_MULT_def)

lemma gapped_map:
  assumes "0 \<le> sd"
  shows "gapped objs \<Longrightarrow> gapped (map (objAfter dst sd pp) objs)"
proof (induction objs)
  case Nil
  show ?case by simp
next
  case (Cons ob objs)
  have "posZ (objAfter dst sd pp p) + 12 \<le> posZ (objAfter dst sd pp ob)"
    if "isDamageSource (otype ob)" "p \<in> set objs" "revives (otype p)" for p
  proof -
    have "posZ p + 12 \<le> posZ ob"
      using Cons.prems that by simp
    moreover have "moveAmountOf dst sd p = dst"
      using that(3) revives_static[of "otype p"] by (simp add: moveAmountOf_static)
    moreover have "dst \<le> moveAmountOf dst sd ob"
      using assms by (rule moveAmountOf_ge)
    ultimately show ?thesis
      by (simp add: posZ_objAfter)
  qed
  then show ?case
    using Cons by (simp add: objAfter_missile(1))
qed

lemma indexOk_objAfter: "indexOk (objAfter dst sd pp ob) = indexOk ob"
  by (simp add: indexOk_def objAfter_def Let_def afterFire_fields moved_fields)

lemma missile_ahead:
  assumes "0 \<le> dst" "0 \<le> sd" "- 88 < posZ ob"
  shows "- 88 < posZ (objAfter dst sd pp ob)"
proof -
  have "dst \<le> moveAmountOf dst sd ob"
    using assms(2) by (rule moveAmountOf_ge)
  then show ?thesis
    using assms(1,3) by (simp add: posZ_objAfter)
qed

lemma newMissile_ahead:
  assumes "alienFires (moved dst sd obj)"
  shows "- 88 < posZ (newMissile i (afterFire (moved dst sd obj)))"
    "indexOk (newMissile i (afterFire (moved dst sd obj)))"
  using assms
  by (simp_all add: alienFires_def newMissile_def posZ_def indexOk_def afterFire_fields)

lemma step_newSpawns_ahead:
  assumes "\<forall>m \<in> set (l_newSpawns L). otype m = MISSILE \<and> - 88 < posZ m \<and> indexOk m"
  shows "\<forall>m \<in> set (l_newSpawns (processObj dst sd pp now L obj)).
          otype m = MISSILE \<and> - 88 < posZ m \<and> indexOk m"
proof
  fix m
  assume m: "m \<in> set (l_newSpawns (processObj dst sd pp now L obj))"
  then have "m \<in> set (l_newSpawns L) \<or>
      (alienFires (moved dst sd obj) \<and> m = newMissile (l_nextId L) (afterFire (moved dst sd obj)))"
    unfolding processObj_newSpawns by (cases "alienFires (moved dst sd obj)") auto
  then show "otype m = MISSILE \<and> - 88 < posZ m \<and> indexOk m"
  proof
    assume "m \<in> set (l_newSpawns L)"
    then show ?thesis using assms by blast
  next
    assume a: "alienFires (moved dst sd obj) \<and>
        m = newMissile (l_nextId L) (afterFire (moved dst sd obj))"
    then show ?thesis
      using newMissile_ahead[of dst sd obj "l_nextId L"]
        newMissile_fields(1)[of "l_nextId L" "afterFire (moved dst sd obj)"] by blast
  qed
qed

lemma loop_newSpawns_ahead:
  "(\<forall>m \<in> set (l_newSpawns L). otype m = MISSILE \<and> - 88 < posZ m \<and> indexOk m) \<Longrightarrow>
   (\<forall>m \<in> set (l_newSpawns (foldl (processObj dst sd pp now) L objs)).
      otype m = MISSILE \<and> - 88 < posZ m \<and> indexOk m)"
proof (induction objs arbitrary: L)
  case Nil
  then show ?case by simp
next
  case (Cons obj objs)
  have "\<forall>m \<in> set (l_newSpawns (processObj dst sd pp now L obj)).
          otype m = MISSILE \<and> - 88 < posZ m \<and> indexOk m"
    using Cons.prems by (rule step_newSpawns_ahead)
  then have "\<forall>m \<in> set (l_newSpawns (foldl (processObj dst sd pp now)
                 (processObj dst sd pp now L obj) objs)).
          otype m = MISSILE \<and> - 88 < posZ m \<and> indexOk m"
    by (rule Cons.IH)
  then show ?case
    by (simp only: foldl.simps)
qed

subsection \<open>What the scheduler appends\<close>

text \<open>
  Everything the scheduler appends in a frame lies at the spawn coordinate, which is at
  most -120 and at least 12 (plus 0.4 times the speed) behind every kept object that is
  not a missile. A heart or a letter is appended alone.
\<close>

lemma batch_refl: "batch z S S"
  by (simp add: batch_def)

lemma batch_trans: "batch z S T \<Longrightarrow> batch z T U \<Longrightarrow> batch z S U"
  by (fastforce simp add: batch_def)

lemma batch_push:
  "otype ob \<noteq> MISSILE \<Longrightarrow> active ob \<Longrightarrow> posZ ob = z \<Longrightarrow> indexOk ob \<Longrightarrow> \<not> revives (otype ob)
     \<Longrightarrow> batch z S (pushObject ob S)"
  by (simp add: batch_def pushObject_def)

lemma batch_field:
  "batch z S T \<Longrightarrow> batch z S (T\<lparr> sp_hasChanges := b \<rparr>)"
  "batch z S T \<Longrightarrow> batch z S (T\<lparr> sp_nextLetterDistance := x \<rparr>)"
  "batch z S T \<Longrightarrow> batch z S (T\<lparr> sp_nextImmortalityDistance := x \<rparr>)"
  by (simp_all add: batch_def)

lemma batch_fold:
  assumes "\<And>k T. batch z T (f k T)"
  shows "batch z S (fold f ks S)"
proof (induction ks arbitrary: S)
  case Nil
  show ?case by (simp add: batch_refl)
next
  case (Cons k ks)
  show ?case
    using batch_trans[OF assms[of S k] Cons.IH[of "f k S"]] by simp
qed

lemma mkObject_fields:
  "posZ (mkObject i t (x, y, z) c) = z" "targetIndex (mkObject i t pos c) = None"
  "indexOk (mkObject i t pos c)"
  by (simp_all add: mkObject_def posZ_def indexOk_def)

lemma update_fields:
  "posZ (ob\<lparr> points := p \<rparr>) = posZ ob" "posZ (ob\<lparr> hasFired := h \<rparr>) = posZ ob"
  "indexOk (ob\<lparr> points := p \<rparr>) = indexOk ob" "indexOk (ob\<lparr> hasFired := h \<rparr>) = indexOk ob"
  by (simp_all add: posZ_def indexOk_def)

lemma batch_spawnAliens: "batch z S (spawnAliens snap rnd z S)"
  unfolding spawnAliens_def Let_def
  by (rule batch_fold)
     (simp add: batch_push otype_mkObject mkObject_fields update_fields revives_def)

lemma batch_spawnSpikes: "batch z S (spawnSpikes snap rnd z S)"
  unfolding spawnSpikes_def Let_def
proof (rule batch_fold)
  fix k :: nat and T :: SpawnState
  let ?ob = "mkObject (sp_nextId T) OBSTACLE
      (real_of_int (rShuffle rnd (laneRange (laneCount snap)) ! k) * LANE_WIDTH,
       OBSTACLE_HEIGHT / 2, z) ''#ff0054''"
  let ?gem = "(mkObject (sp_nextId (pushObject ?ob T)) GEM
                 (real_of_int (rShuffle rnd (laneRange (laneCount snap)) ! k) * LANE_WIDTH,
                  OBSTACLE_HEIGHT + 1.0, z) ''#ffd700'')\<lparr> points := Some 100 \<rparr>"
  have 1: "batch z T (pushObject ?ob T)"
    by (simp add: batch_push otype_mkObject mkObject_fields revives_def)
  have 2: "batch z (pushObject ?ob T) (pushObject ?gem (pushObject ?ob T))"
    by (simp add: batch_push otype_mkObject mkObject_fields update_fields revives_def)
  show "batch z T
          (if rGem rnd k < 0.3 then pushObject ?gem (pushObject ?ob T)
           else pushObject ?ob T)"
    using 1 batch_trans[OF 1 2] by simp
qed

lemma spawned_batch: "batch z S T \<Longrightarrow> spawned z S T"
  unfolding batch_def spawned_def by blast

lemma spawned_push:
  "otype ob \<noteq> MISSILE \<Longrightarrow> active ob \<Longrightarrow> posZ ob = z \<Longrightarrow> indexOk ob
     \<Longrightarrow> spawned z S (pushObject ob S)"
  by (simp add: spawned_def pushObject_def)

lemma spawned_field:
  "spawned z S T \<Longrightarrow> spawned z S (T\<lparr> sp_hasChanges := b \<rparr>)"
  "spawned z S T \<Longrightarrow> spawned z S (T\<lparr> sp_nextLetterDistance := x \<rparr>)"
  "spawned z S T \<Longrightarrow> spawned z S (T\<lparr> sp_nextImmortalityDistance := x \<rparr>)"
  by (simp_all add: spawned_def)

lemma spawned_spawnPool: "spawned z S (spawnPool snap rnd d z S)"
  unfolding spawnPool_def Let_def
  by (simp add: spawned_field spawned_push otype_mkObject mkObject_fields update_fields
      spawned_batch batch_spawnAliens batch_spawnSpikes)

lemma avail_below: "i \<in> set (availableIndices snap) \<Longrightarrow> i < 12"
  using target_len[of "level snap"] by (simp add: set_availableIndices)

lemma spawned_spawnLetterDue: "spawned z S (spawnLetterDue snap rnd z S)"
proof (cases "length (availableIndices snap) > 0")
  case False
  then show ?thesis
    unfolding spawnLetterDue_def Let_def
    by (simp add: spawned_field spawned_push otype_mkObject mkObject_fields update_fields)
next
  case True
  define avail where "avail = availableIndices snap"
  define k where "k = \<lfloor>rIndex rnd * real (length avail)\<rfloor>"
  define chosen where
    "chosen = (if 0 \<le> k \<and> k < int (length avail) then Some (avail ! nat k) else None)"
  define val where
    "val = (case chosen of None \<Rightarrow> None
            | Some i \<Rightarrow> if i < length (getTargetCharsForLevel (level snap))
                       then Some (getTargetCharsForLevel (level snap) ! i) else None)"
  define col where
    "col = (case chosen of None \<Rightarrow> None
            | Some i \<Rightarrow> if i < length (getTargetColorsForLevel (level snap))
                       then Some (getTargetColorsForLevel (level snap) ! i) else None)"
  define ob where
    "ob = \<lparr> oid = sp_nextId S, otype = LETTER,
            position = (real_of_int (getRandomLane (laneCount snap) (rLane rnd)) * LANE_WIDTH,
                        1.0, z),
            active = True, ovalue = val, color = col,
            targetIndex = chosen, points = None, hasFired = None \<rparr>"
  have e: "spawnLetterDue snap rnd z S =
      (pushObject ob S)\<lparr> sp_nextLetterDistance :=
          sp_nextLetterDistance (pushObject ob S) + getLetterInterval (level snap),
        sp_hasChanges := True \<rparr>"
    using True
    unfolding spawnLetterDue_def Let_def avail_def[symmetric] k_def[symmetric]
      chosen_def[symmetric] val_def[symmetric] col_def[symmetric] ob_def[symmetric]
    by simp
  have "i < 12" if "chosen = Some i" for i
  proof -
    have "0 \<le> k \<and> k < int (length avail)" "i = avail ! nat k"
      using that by (simp_all add: chosen_def split: if_splits)
    then have "nat k < length avail" by linarith
    then have "avail ! nat k \<in> set avail" by (rule nth_mem)
    then show ?thesis
      unfolding avail_def \<open>i = avail ! nat k\<close> avail_def by (rule avail_below)
  qed
  then have "indexOk ob"
    by (simp add: indexOk_def ob_def split: option.split)
  moreover have "otype ob \<noteq> MISSILE" "active ob" "posZ ob = z"
    by (simp_all add: ob_def posZ_def)
  ultimately have "spawned z S (pushObject ob S)"
    by (simp add: spawned_push)
  then show ?thesis
    unfolding e by (simp add: spawned_field)
qed

lemma spawned_refl: "spawned z S S"
  by (simp add: spawned_def)

lemma spawned_spawnPhase: "spawned (spawnZOf snap S) S (spawnPhase snap rnd d S)"
  unfolding spawnPhase_def Let_def spawnZOf_def
  by (simp add: spawned_refl spawned_spawnPool spawned_spawnLetterDue)

lemma minList_le: "x \<in> set xs \<Longrightarrow> minList xs \<le> x"
  by (induction xs rule: minList.induct) auto

lemma furthestZ_le:
  assumes "ob \<in> set obs" "otype ob \<noteq> MISSILE"
  shows "furthestZ obs \<le> posZ ob"
proof -
  have "ob \<in> set (filter (\<lambda>ob. otype ob \<noteq> MISSILE) obs)"
    using assms by simp
  then have "posZ ob \<in> set (map posZ (filter (\<lambda>ob. otype ob \<noteq> MISSILE) obs))"
    unfolding set_map by (rule imageI)
  then have "minList (map posZ (filter (\<lambda>ob. otype ob \<noteq> MISSILE) obs)) \<le> posZ ob"
    by (rule minList_le)
  moreover have "filter (\<lambda>ob. otype ob \<noteq> MISSILE) obs \<noteq> []"
    using \<open>ob \<in> set (filter (\<lambda>ob. otype ob \<noteq> MISSILE) obs)\<close>
    by (cases "filter (\<lambda>ob. otype ob \<noteq> MISSILE) obs") simp_all
  ultimately show ?thesis
    by (simp add: furthestZ_def Let_def)
qed

lemma spawnZOf_behind:
  assumes "0 \<le> speed snap"
  shows "spawnZOf snap S \<le> - 120"
    "ob \<in> set (sp_kept S) \<Longrightarrow> otype ob \<noteq> MISSILE \<Longrightarrow> spawnZOf snap S + 12 \<le> posZ ob"
proof -
  show "spawnZOf snap S \<le> - 120"
    by (simp add: spawnZOf_def SPAWN_DISTANCE_def)
  assume "ob \<in> set (sp_kept S)" "otype ob \<noteq> MISSILE"
  then have "furthestZ (sp_kept S) \<le> posZ ob"
    by (rule furthestZ_le)
  moreover have "spawnZOf snap S \<le> furthestZ (sp_kept S) - (12 + speed snap * 0.4)"
    by (simp add: spawnZOf_def)
  ultimately show "spawnZOf snap S + 12 \<le> posZ ob"
    using assms by simp
qed

subsection \<open>The registry after a frame\<close>

lemma frame_registry:
  assumes "status (store sys) = PLAYING"
  shows "\<exists>created.
     objects (fst (frame delta pp rnd sys)) = sp_kept (schedulerStart delta pp sys) @ created \<and>
     (\<forall>ob \<in> set created. otype ob \<noteq> MISSILE \<and> active ob \<and>
        posZ ob = spawnZOf (store sys) (schedulerStart delta pp sys) \<and> indexOk ob) \<and>
     ((\<forall>ob \<in> set created. \<not> revives (otype ob)) \<or> length created \<le> 1)"
proof -
  define dst where "dst = speed (store sys) * min delta 0.05"
  define sd where "sd = min delta (0.05 :: real)"
  define L where "L = loopOf delta pp sys"
  define S0 where "S0 = schedulerStart delta pp sys"
  define S where "S = spawnPhase (store sys) rnd (distanceTraveled sys + dst) S0"
  have L: "L = foldl (processObj dst sd pp (clock sys)) (loopStart sys) (objects sys)"
    by (simp add: L_def loopOf_def dst_def sd_def)
  have S0: "S0 = spawnStart sys L"
    by (simp add: S0_def schedulerStart_def L_def)
  have obj: "objects (fst (frame delta pp rnd sys)) = (if sp_hasChanges S then sp_kept S else l_moved L)"
    using assms by (simp add: frame_def Let_def S_def S0 L dst_def sd_def)
  obtain created where c: "sp_kept S = sp_kept S0 @ created"
      "\<forall>ob \<in> set created. otype ob \<noteq> MISSILE \<and> active ob \<and>
         posZ ob = spawnZOf (store sys) S0 \<and> indexOk ob"
      "(\<forall>ob \<in> set created. \<not> revives (otype ob)) \<or> length created \<le> 1"
    using spawned_spawnPhase[of "store sys" S0 rnd "distanceTraveled sys + dst"]
    unfolding spawned_def S_def by blast
  have "\<exists>created.
     objects (fst (frame delta pp rnd sys)) = sp_kept S0 @ created \<and>
     (\<forall>ob \<in> set created. otype ob \<noteq> MISSILE \<and> active ob \<and>
        posZ ob = spawnZOf (store sys) S0 \<and> indexOk ob) \<and>
     ((\<forall>ob \<in> set created. \<not> revives (otype ob)) \<or> length created \<le> 1)"
  proof (cases "sp_hasChanges S")
    case True
    then have "objects (fst (frame delta pp rnd sys)) = sp_kept S0 @ created"
      using obj c(1) by simp
    then show ?thesis
      using c(2,3) by (intro exI[of _ created]) simp
  next
    case False
    then have "S = S0"
      using changes_spawnPhase[of "store sys" rnd "distanceTraveled sys + dst" S0]
      by (simp add: S_def)
    then have "\<not> l_hasChanges L"
      using False by (simp add: S0 spawnStart_def)
    then have u: "l_newSpawns L = []"
        "filter (\<lambda>ob. \<not> posZ ob > REMOVE_DISTANCE) (map (objAfter dst sd pp) (objects sys))
           = map (objAfter dst sd pp) (objects sys)"
      using loop_unchanged[of dst sd pp "clock sys" "loopStart sys" "objects sys"]
      by (simp_all add: L loopStart_def)
    have "l_kept L = l_moved L"
      using u(2) by (simp add: L loop_kept loop_moved loopStart_def)
    then have "objects (fst (frame delta pp rnd sys)) = sp_kept S0 @ []"
      using obj False u(1) by (simp add: S0 spawnStart_def)
    then show ?thesis
      by (intro exI[of _ "[]"]) simp
  qed
  then show ?thesis
    unfolding S0_def .
qed

lemma schedulerStart_kept:
  "sp_kept (schedulerStart delta pp sys) =
     filter (\<lambda>ob. \<not> posZ ob > REMOVE_DISTANCE)
       (map (objAfter (speed (store sys) * min delta 0.05) (min delta 0.05) pp) (objects sys))
     @ l_newSpawns (loopOf delta pp sys)"
  by (simp add: schedulerStart_def spawnStart_def loopOf_def loop_kept loopStart_def)

lemma registry_Nil: "registryInv []"
  by (simp add: registryInv_def)

lemma registry_filter: "registryInv obs \<Longrightarrow> registryInv (filter P obs)"
  by (simp add: registryInv_def gapped_filter)

lemma registry_frame:
  assumes r: "registryInv (objects sys)" and p: "0 \<le> speed (store sys)" and d: "0 \<le> delta"
  shows "registryInv (objects (fst (frame delta pp rnd sys)))"
proof (cases "status (store sys) = PLAYING")
  case False
  then show ?thesis
    using r by (simp add: frame_def)
next
  case True
  define dst where "dst = speed (store sys) * min delta 0.05"
  define sd where "sd = min delta (0.05 :: real)"
  define K where "K = filter (\<lambda>ob. \<not> posZ ob > REMOVE_DISTANCE)
       (map (objAfter dst sd pp) (objects sys))"
  define M where "M = l_newSpawns (loopOf delta pp sys)"
  define z where "z = spawnZOf (store sys) (schedulerStart delta pp sys)"
  have sd0: "0 \<le> sd" using d by (simp add: sd_def)
  have dst0: "0 \<le> dst" using p sd0 by (simp add: dst_def sd_def)
  have kept: "sp_kept (schedulerStart delta pp sys) = K @ M"
    by (simp add: schedulerStart_kept K_def M_def dst_def sd_def)
  obtain created where c:
      "objects (fst (frame delta pp rnd sys)) = (K @ M) @ created"
      "\<forall>ob \<in> set created. otype ob \<noteq> MISSILE \<and> active ob \<and> posZ ob = z \<and> indexOk ob"
      "(\<forall>ob \<in> set created. \<not> revives (otype ob)) \<or> length created \<le> 1"
    using frame_registry[OF True, of delta pp rnd] unfolding kept z_def by blast
  have g0: "gapped (objects sys)"
    and pt0: "\<forall>ob \<in> set (objects sys). indexOk ob \<and> (otype ob = MISSILE \<longrightarrow> - 88 < posZ ob)"
    using r by (simp_all add: registryInv_def)
  have gK: "gapped K"
    unfolding K_def using g0 sd0 by (intro gapped_filter gapped_map)
  have ptK: "indexOk ob \<and> (otype ob = MISSILE \<longrightarrow> - 88 < posZ ob)" if m: "ob \<in> set K" for ob
  proof -
    have "ob \<in> objAfter dst sd pp ` set (objects sys)"
      using m by (simp add: K_def)
    then obtain ob0 where o: "ob0 \<in> set (objects sys)" "ob = objAfter dst sd pp ob0"
      by blast
    have "indexOk ob0" "otype ob0 = MISSILE \<longrightarrow> - 88 < posZ ob0"
      using pt0 o(1) by simp_all
    then show ?thesis
      unfolding o(2) using missile_ahead[OF dst0 sd0, of ob0 pp]
      by (simp add: indexOk_objAfter objAfter_missile(1))
  qed
  have ptM: "\<forall>m \<in> set M. otype m = MISSILE \<and> - 88 < posZ m \<and> indexOk m"
    unfolding M_def loopOf_def by (rule loop_newSpawns_ahead) (simp add: loopStart_def)
  have gM: "gapped M"
  proof (rule gapped_plain, rule ballI)
    fix m assume "m \<in> set M"
    then have "otype m = MISSILE" using ptM by blast
    then show "\<not> revives (otype m)" by (simp add: revives_def)
  qed
  have gC: "gapped created"
    using c(3) gapped_plain[of created] gapped_short[of created] by blast
  have gKM: "gapped (K @ M)"
  proof -
    have "\<forall>x \<in> set K. isDamageSource (otype x) \<longrightarrow>
        (\<forall>p \<in> set M. revives (otype p) \<longrightarrow> posZ p + 12 \<le> posZ x)"
    proof (intro ballI impI)
      fix x p assume "p \<in> set M" "revives (otype p)"
      then have False using ptM by (auto simp add: revives_def)
      then show "posZ p + 12 \<le> posZ x" ..
    qed
    then show ?thesis
      using gK gM by (simp add: gapped_append)
  qed
  have ptKM: "indexOk ob \<and> (otype ob = MISSILE \<longrightarrow> - 88 < posZ ob)" if "ob \<in> set (K @ M)" for ob
  proof -
    have "ob \<in> set K \<or> ob \<in> set M" using that by simp
    then show ?thesis
      using ptK[of ob] ptM by blast
  qed
  have zb: "z \<le> - 120" "\<And>ob. ob \<in> set (K @ M) \<Longrightarrow> otype ob \<noteq> MISSILE \<Longrightarrow> z + 12 \<le> posZ ob"
    using spawnZOf_behind[OF p, where S = "schedulerStart delta pp sys"] unfolding z_def kept
    by blast+
  have cross: "\<forall>x \<in> set (K @ M). isDamageSource (otype x) \<longrightarrow>
        (\<forall>q \<in> set created. revives (otype q) \<longrightarrow> posZ q + 12 \<le> posZ x)"
  proof (intro ballI impI)
    fix x q assume x: "x \<in> set (K @ M)" and q: "q \<in> set created"
    have qz: "posZ q = z" using c(2) q by blast
    show "posZ q + 12 \<le> posZ x"
    proof (cases "otype x = MISSILE")
      case True
      then have "- 88 < posZ x" using ptKM[OF x] by blast
      then show ?thesis using zb(1) qz by linarith
    next
      case False
      then show ?thesis using zb(2)[OF x] qz by simp
    qed
  qed
  have g: "gapped ((K @ M) @ created)"
    using gKM gC cross by (simp only: gapped_append[of "K @ M" created])
  have pt: "indexOk ob \<and> (otype ob = MISSILE \<longrightarrow> - 88 < posZ ob)"
    if "ob \<in> set ((K @ M) @ created)" for ob
  proof -
    have "ob \<in> set (K @ M) \<or> ob \<in> set created" using that by simp
    then show ?thesis
    proof
      assume "ob \<in> set (K @ M)"
      then show ?thesis by (rule ptKM)
    next
      assume "ob \<in> set created"
      then show ?thesis using c(2) by blast
    qed
  qed
  show ?thesis
    unfolding c(1) registryInv_def using g pt by blast
qed

subsection \<open>The invariant of a played game\<close>

lemma pace_addScore: "paceInv st \<Longrightarrow> paceInv (addScore n st)"
  by (simp add: paceInv_def speedBound_def addScore_def)

lemma pace_setDistance: "paceInv st \<Longrightarrow> paceInv (setDistance n st)"
  by (simp add: paceInv_def speedBound_def setDistance_def)

lemma step_below_8:
  assumes "paceInv st" "0 \<le> delta"
  shows "0 \<le> speed st * min delta 0.05" "speed st * min delta 0.05 < 8"
proof -
  have s: "0 \<le> speed st" "speed st \<le> 171/2"
    using pace_speed[OF assms(1)] by simp_all
  have m: "0 \<le> min delta 0.05" "min delta 0.05 \<le> 1/20"
    using assms(2) by simp_all
  show "0 \<le> speed st * min delta 0.05"
    using s(1) m(1) by simp
  have "speed st * min delta 0.05 \<le> (171/2) * (1/20)"
    using s m by (intro mult_mono) simp_all
  then show "speed st * min delta 0.05 < 8"
    by simp
qed

lemma sysInv_frame:
  assumes "sysInv sys" "0 \<le> delta"
  shows "sysInv (fst (frame delta pp rnd sys))"
proof -
  have inv: "storeInv (store sys)" "paceInv (store sys)" "registryInv (objects sys)"
    using assms(1) by (simp_all add: sysInv_def)
  have sp: "0 \<le> speed (store sys)"
    using pace_speed[OF inv(2)] by simp
  have reg: "registryInv (objects (fst (frame delta pp rnd sys)))"
    using inv(3) sp assms(2) by (rule registry_frame)
  have st: "storeInv (store (fst (frame delta pp rnd sys))) \<and>
            paceInv (store (fst (frame delta pp rnd sys)))"
  proof (cases "status (store sys) = PLAYING")
    case False
    then show ?thesis
      using inv by (simp add: frame_def)
  next
    case True
    obtain px py pz where pp: "pp = (px, py, pz)"
      by (cases pp) auto
    define dst where "dst = speed (store sys) * min delta 0.05"
    have d: "dst < 8"
      unfolding dst_def using inv(2) assms(2) by (rule step_below_8)
    have g: "gapped (objects sys)" "\<forall>ob \<in> set (objects sys). indexOk ob"
      using inv(3) by (simp_all add: registryInv_def)
    have l: "storeInv (l_store (loopStart sys))" "paceInv (l_store (loopStart sys))"
        "status (l_store (loopStart sys)) = GAME_OVER \<longrightarrow>
          (\<forall>p \<in> set (objects sys). revives (otype p) \<longrightarrow>
             \<not> (posZ p < pz + 2 \<and> posZ p + dst > pz - 2))"
      using inv True by (simp_all add: loopStart_def)
    have "storeInv (l_store (foldl (processObj dst (min delta 0.05) (px, py, pz) (clock sys))
                      (loopStart sys) (objects sys))) \<and>
          paceInv (l_store (foldl (processObj dst (min delta 0.05) (px, py, pz) (clock sys))
                      (loopStart sys) (objects sys)))"
      using d g l by (rule loop_store)
    then show ?thesis
      using True unfolding frame_def Let_def pp dst_def by simp
  qed
  show ?thesis
    using st reg by (simp add: sysInv_def)
qed

lemma sysInv_act:
  assumes "sysInv sys" "driven i"
  shows "sysInv (act i sys)"
proof (cases i)
  case Start
  then show ?thesis
    using assms(1) by (simp add: sysInv_def startCommand_def inv_startGame inv_restartGame pace_start)
next
  case (Frame delta pp rnd)
  then show ?thesis
    using assms sysInv_frame[of sys delta pp rnd] by simp
next
  case (Elapse d)
  then show ?thesis
    using assms(1)
    by (simp add: sysInv_def elapse_def Let_def storeInv_fold_expired pace_fold_expired)
next
  case (AddScore n)
  then show ?thesis
    using assms(1) by (simp add: sysInv_def inv_addScore pace_addScore)
next
  case AdvanceLevel
  then show ?thesis
    using assms(2) by simp
qed

lemma registry_afterRender:
  "registryInv (objects sys) \<Longrightarrow> registryInv (objects (afterRender sys))"
  by (simp add: afterRender_def transitionEffect_def Let_def registry_Nil registry_filter)

lemma sysInv_afterRender: "sysInv sys \<Longrightarrow> sysInv (afterRender sys)"
  using store_afterRender[of sys] registry_afterRender[of sys]
  by (auto simp add: sysInv_def inv_setDistance pace_setDistance)

lemma sysInv_played: "played sys \<Longrightarrow> sysInv sys"
proof (induction rule: played.induct)
  case played_init
  show ?case
    by (simp add: sysInv_def initialSys_def initialState_def storeInv_def paceInv_def
        speedBound_def registryInv_def MAX_LEVEL_def RUN_SPEED_BASE_def)
next
  case (played_step sys i)
  then show ?case
    by (simp add: sysStep_def sysInv_afterRender sysInv_act)
qed

lemma played_reachable: "played sys \<Longrightarrow> reachable sys"
  by (induction rule: played.induct) (simp_all add: reachable.intros)

lemma played_runInputs:
  "played sys \<Longrightarrow> \<forall>i \<in> set is. driven i \<Longrightarrow> played (runInputs is sys)"
  by (induction "is" arbitrary: sys) (simp_all add: runInputs_def played.played_step)

lemma played_gameOver: "played (runInputs gameOverInputs initialSys)"
  by (rule played_runInputs[OF played.played_init])
     (simp add: gameOverInputs_def approachInputs_def)


text \<open>
  Claim C1. In every state the system reaches, whatever the inputs, lives are between 0
  and \<open>maxLives\<close>. In every state of a played game (start commands, frames with a time
  step that is not negative, with their hits and pickups, timer expiry and \<open>addScore\<close>;
  \<open>advanceLevel\<close> through \<open>collectLetter\<close>), a status of \<open>GAME_OVER\<close> moreover
  comes with no lives and no speed. The hit is applied inside the loop of the frame,
  where a heart or a letter later in the registry could undo it; the gap the scheduler
  leaves behind every damage source keeps such a pickup out of the player's zone in
  that frame.
\<close>

theorem C1_lives_bounds_and_game_over:
  "(reachable sys \<longrightarrow>
      0 \<le> lives (store sys) \<and> lives (store sys) \<le> maxLives (store sys)) \<and>
   (played sys \<longrightarrow>
      0 \<le> lives (store sys) \<and> lives (store sys) \<le> maxLives (store sys) \<and>
      (status (store sys) = GAME_OVER \<longrightarrow> lives (store sys) = 0 \<and> speed (store sys) = 0))"
  using lives_reachable[of sys] sysInv_played[of sys]
  by (simp add: livesInv_def sysInv_def storeInv_def)

theorem C1_lives_bounds_witness:
  "reachable (runInputs gameOverInputs initialSys) \<and>
   played (runInputs gameOverInputs initialSys) \<and>
   0 \<le> lives (store (runInputs gameOverInputs initialSys)) \<and>
   lives (store (runInputs gameOverInputs initialSys))
     \<le> maxLives (store (runInputs gameOverInputs initialSys)) \<and>
   status (store (runInputs gameOverInputs initialSys)) = GAME_OVER \<and>
   lives (store (runInputs gameOverInputs initialSys)) = 0 \<and>
   speed (store (runInputs gameOverInputs initialSys)) = 0"
  using C1_lives_bounds_and_game_over[of "runInputs gameOverInputs initialSys"]
    played_gameOver played_reachable[OF played_gameOver] gameOver_fields(1)
  by simp

lemma speed_step_mono:
  "\<not> isReset a \<Longrightarrow> status (applyAction a s) = PLAYING \<Longrightarrow> speed s \<le> speed (applyAction a s)"
  by (cases a)
     (auto simp add: isReset_def takeDamage_def addScore_def collectGem_def collectLetter_def
        healOne_def setDistance_def setStatus_def increaseLevel_def advanceLevel_def activateImmortality_def immortalityExpired_def
        RUN_SPEED_BASE_def LETTER_SPEED_TOTAL_FRACTION_def DIFFICULTY_MULT_def Let_def
        split: if_splits)

lemma speed_run_mono:
  "\<forall>a \<in> set acts. \<not> isReset a \<Longrightarrow> playingThroughout s acts \<Longrightarrow> speed s \<le> speed (runActions acts s)"
proof (induction acts arbitrary: s)
  case Nil
  then show ?case by (simp add: runActions_def)
next
  case (Cons a acts)
  have p: "status (applyAction a s) = PLAYING" using Cons.prems(2) by (cases acts) simp_all
  have "speed s \<le> speed (applyAction a s)" using Cons.prems(1) p by (simp add: speed_step_mono)
  moreover have "speed (applyAction a s) \<le> speed (runActions acts (applyAction a s))"
    using Cons by simp
  ultimately show ?case by (simp add: runActions_def)
qed

lemma speed_collectLetter_strict:
  assumes "i \<notin> set (collectedLetters s)"
  shows "speed s < speed (collectLetter i s)"
proof -
  define per where "per = RUN_SPEED_BASE * ((LETTER_SPEED_TOTAL_FRACTION * DIFFICULTY_MULT)
      / real (max 1 (length (getTargetCharsForLevel (level s)))))"
  have pos: "0 < per" unfolding per_def by (rule perLetter_pos)
  have "speed (collectLetter i s) = speed s + per
        \<or> speed (collectLetter i s) = speed s + per + RUN_SPEED_BASE * 0.40 * DIFFICULTY_MULT"
    using assms unfolding collectLetter_def advanceLevel_def Let_def per_def by simp
  moreover have "0 < RUN_SPEED_BASE * 0.40 * DIFFICULTY_MULT"
    by (simp add: RUN_SPEED_BASE_def DIFFICULTY_MULT_def)
  ultimately show ?thesis using pos by linarith
qed

lemma speed_advanceLevel_strict: "speed s < speed (advanceLevel s)"
  by (simp add: advanceLevel_def RUN_SPEED_BASE_def DIFFICULTY_MULT_def Let_def)

text \<open>
  Claim C8, as amended. Over a run of store actions none of which is \<open>startGame\<close> or
  \<open>restartGame\<close>, with the status \<open>PLAYING\<close> before and after every action, the speed
  at the end is at least the speed at the start; \<open>collectLetter\<close> with an index not yet
  collected and \<open>advanceLevel\<close> each make the speed strictly larger.
\<close>

theorem C8_speed_monotone_without_reset:
  "((\<forall>a \<in> set acts. \<not> isReset a) \<and> playingThroughout s acts
      \<longrightarrow> speed s \<le> speed (runActions acts s)) \<and>
   (i \<notin> set (collectedLetters s) \<longrightarrow> speed s < speed (collectLetter i s)) \<and>
   speed s < speed (advanceLevel s)"
  using speed_run_mono[of acts s] speed_collectLetter_strict[of i s]
    speed_advanceLevel_strict[of s]
  by blast

theorem C8_speed_monotone_witness:
  "\<not> isReset (CollectLetter 0) \<and> \<not> isReset TakeDamage \<and> \<not> isReset (CollectGem 50) \<and>
   \<not> isReset AdvanceLevelAction \<and>
   playingThroughout (startGame initialState)
     [CollectLetter 0, TakeDamage, CollectGem 50, AdvanceLevelAction] \<and>
   speed (startGame initialState)
     \<le> speed (runActions [CollectLetter 0, TakeDamage, CollectGem 50, AdvanceLevelAction]
          (startGame initialState)) \<and>
   0 \<notin> set (collectedLetters (startGame initialState)) \<and>
   speed (startGame initialState) < speed (collectLetter 0 (startGame initialState)) \<and>
   speed (startGame initialState) < speed (advanceLevel (startGame initialState))"
  using C8_speed_monotone_without_reset
    [of "[CollectLetter 0, TakeDamage, CollectGem 50, AdvanceLevelAction]"
      "startGame initialState" 0]
  by (simp add: target_chars_1 isReset_def startGame_def collectLetter_def takeDamage_def
      collectGem_def advanceLevel_def initialState_def RUN_SPEED_BASE_def
      LETTER_SPEED_TOTAL_FRACTION_def DIFFICULTY_MULT_def MAX_LEVEL_def makeOdd_def Let_def)

text \<open>
  Claim C8 as stated fails: \<open>restartGame\<close> is a store action, the start command calls it
  whenever the status is not \<open>MENU\<close>, and called while playing it keeps the status
  \<open>PLAYING\<close> and puts the speed back to the base speed. Here one letter has been
  collected before the restart.
\<close>

theorem C8_restart_lowers_speed:
  "playingThroughout (collectLetter 0 (startGame initialState)) [RestartGame] \<and>
   speed (runActions [RestartGame] (collectLetter 0 (startGame initialState)))
     < speed (collectLetter 0 (startGame initialState))"
  by (simp add: target_chars_1 runActions_def startGame_def restartGame_def collectLetter_def
      initialState_def RUN_SPEED_BASE_def LETTER_SPEED_TOTAL_FRACTION_def DIFFICULTY_MULT_def
      MAX_LEVEL_def Let_def)

text \<open>
  Claim C5 on the code. A buff is activated at time 0, the game is restarted at 1000 ms
  and a new buff is activated at 2000 ms, to last until 7000 ms. At 5000 ms the timer
  of the first buff runs: it was never cancelled and its callback checks nothing, so the
  new buff is cleared two seconds early.
\<close>

theorem C5_stale_timer_clears_new_buff:
  "(let s = sysActivateImmortality (elapse 1000 (startCommand (elapse 1000
              (sysActivateImmortality (startCommand initialSys)))))
    in clock s = 2000 \<and> isImmortalityActive (store s) \<and>
       immortalityEndsAt (store s) = 7000 \<and> timers s = [5000, 7000] \<and>
       clock (elapse 3000 s) = 5000 \<and> \<not> isImmortalityActive (store (elapse 3000 s)) \<and>
       immortalityEndsAt (store (elapse 3000 s)) = 0)"
  by (simp add: sysActivateImmortality_def elapse_def startCommand_def initialSys_def
      initialState_def startGame_def restartGame_def activateImmortality_def
      immortalityExpired_def Let_def)

text \<open>
  Claim C3 (scenario A). After \<open>startGame\<close>, collecting the indices 0 up to the length
  of the first level's target, in order, leaves the store at level 2 with no collected
  letters, speed \<open>base + base * 0.48 + base * 0.32\<close>, five lanes and status \<open>PLAYING\<close>.
  The arithmetic is exact, so the speed is equal to that value, not only close to it.
\<close>

theorem C3_scenario_A:
  "(let s = runActions (map CollectLetter [0 ..< length (getTargetCharsForLevel 1)])
              (startGame s0)
    in level s = 2 \<and> collectedLetters s = [] \<and>
       speed s = RUN_SPEED_BASE + RUN_SPEED_BASE * 0.48 + RUN_SPEED_BASE * 0.32 \<and>
       laneCount s = 5 \<and> status s = PLAYING)"
  by (simp add: target_chars_1 runActions_def upt_rec startGame_def collectLetter_def
      advanceLevel_def RUN_SPEED_BASE_def MAX_LEVEL_def LETTER_SPEED_TOTAL_FRACTION_def
      DIFFICULTY_MULT_def makeOdd_def Let_def)

text \<open>
  Claim C10. \<open>startGame\<close> and \<open>restartGame\<close> are the same function: on any state both
  give the state with status \<open>PLAYING\<close>, score 0, three lives of three, the base speed,
  level 1, three lanes, no gems, distance 0, no letters and no immortality.
\<close>

theorem C10_startGame_eq_restartGame:
  "startGame s = restartGame s \<and>
   startGame s =
     \<lparr> status = PLAYING, score = 0, lives = 3, maxLives = 3, speed = RUN_SPEED_BASE,
       collectedLetters = [], level = 1, laneCount = 3, gemsCollected = 0, distance = 0,
       isImmortalityActive = False, immortalityEndsAt = 0 \<rparr>"
  by (simp add: startGame_def restartGame_def)

lemma exec_nonempty: "exec is sys \<noteq> []"
  by (cases "is") simp_all

lemma last_exec: "last (exec is sys) = runInputs is sys"
  by (induction "is" arbitrary: sys) (simp_all add: runInputs_def exec_nonempty)

text \<open>
  Claim C9. From a reachable state with status \<open>MENU\<close> no step of the system leads to
  \<open>GAME_OVER\<close> or \<open>VICTORY\<close>, and every run from such a state that ends in one of the
  two visits a state with status \<open>PLAYING\<close>.
\<close>

theorem C9_menu_never_skips_playing:
  "(reachable sys \<and> status (store sys) = MENU \<longrightarrow>
      status (store (sysStep i sys)) \<noteq> GAME_OVER \<and>
      status (store (sysStep i sys)) \<noteq> VICTORY) \<and>
   (reachable sys \<and> status (store sys) = MENU \<and>
    terminal (status (store (last (exec is sys)))) \<longrightarrow>
      PLAYING \<in> set (map (\<lambda>s. status (store s)) (exec is sys)))"
  using menu_step[of sys i] menu_path[of sys "is"] by auto

theorem C9_menu_witness:
  "reachable initialSys \<and> status (store initialSys) = MENU \<and>
   status (store (sysStep Start initialSys)) \<noteq> GAME_OVER \<and>
   status (store (sysStep Start initialSys)) \<noteq> VICTORY \<and>
   terminal (status (store (last (exec gameOverInputs initialSys)))) \<and>
   PLAYING \<in> set (map (\<lambda>s. status (store s)) (exec gameOverInputs initialSys))"
proof -
  have m: "status (store initialSys) = MENU"
    by (simp add: initialSys_def initialState_def)
  have t: "terminal (status (store (last (exec gameOverInputs initialSys))))"
    by (simp add: last_exec gameOver_fields terminal_def)
  show ?thesis
    using C9_menu_never_skips_playing[of initialSys Start gameOverInputs]
      reachable.reach_init m t
    by simp
qed

section \<open>The swept collision test\<close>






section \<open>Removal from the registry\<close>

text \<open>
  Claim C4, as amended. After a frame the registry consists of the objects it held
  before, each as the loop body leaves it, without those whose coordinate after the move
  exceeds the removal distance, followed by the objects created in the frame, which are
  all active. The loop
  body moves an object by the frame's step, keeps its identifier and never reactivates
  it: an inactive object stays in the registry until it passes the removal distance.
\<close>

theorem C4_removed_only_past_threshold:
  "(status (store sys) = PLAYING \<longrightarrow>
      (\<exists>created. objects (fst (frame delta pp rnd sys)) =
         filter (\<lambda>ob. \<not> posZ ob > REMOVE_DISTANCE)
           (map (objAfter (speed (store sys) * min delta 0.05) (min delta 0.05) pp)
              (objects sys))
         @ created \<and>
         (\<forall>ob \<in> set created. active ob))) \<and>
   posZ (objAfter dst sd pp obj) = posZ obj + moveAmountOf dst sd obj \<and>
   oid (objAfter dst sd pp obj) = oid obj \<and>
   (\<not> active obj \<longrightarrow> \<not> active (objAfter dst sd pp obj))"
proof -
  have "\<exists>created. objects (fst (frame delta pp rnd sys)) =
         filter (\<lambda>ob. \<not> posZ ob > REMOVE_DISTANCE)
           (map (objAfter (speed (store sys) * min delta 0.05) (min delta 0.05) pp)
              (objects sys))
         @ created \<and>
         (\<forall>ob \<in> set created. active ob)" if p: "status (store sys) = PLAYING"
  proof -
    obtain created where c:
      "objects (fst (frame delta pp rnd sys)) =
         filter (\<lambda>ob. \<not> posZ ob > REMOVE_DISTANCE)
           (map (objAfter (speed (store sys) * min delta 0.05) (min delta 0.05) pp)
              (objects sys))
         @ l_newSpawns (foldl (processObj (speed (store sys) * min delta 0.05) (min delta 0.05)
                                pp (clock sys)) (loopStart sys) (objects sys))
         @ created"
      "\<forall>ob \<in> set created. otype ob \<noteq> MISSILE \<and> active ob"
      using frame_objects[OF p, of delta pp rnd] by blast
    have n: "\<forall>m \<in> set (l_newSpawns (foldl (processObj (speed (store sys) * min delta 0.05)
                (min delta 0.05) pp (clock sys)) (loopStart sys) (objects sys))).
             otype m = MISSILE \<and> firedMissile m \<and> active m"
      by (rule loop_newSpawns_fired) (simp add: loopStart_def)
    show ?thesis
      using c n
      by (intro exI[of _ "l_newSpawns (foldl (processObj (speed (store sys) * min delta 0.05)
                (min delta 0.05) pp (clock sys)) (loopStart sys) (objects sys)) @ created"])
         auto
  qed
  moreover have "oid (objAfter dst sd pp obj) = oid obj"
    by (simp add: objAfter_def Let_def afterFire_fields moved_fields)
  ultimately show ?thesis
    by (simp add: posZ_objAfter active_objAfter)
qed

theorem C4_removed_witness:
  "status (store (spikesSys (- 3) (945/8) True True True 0)) = PLAYING \<and>
   (\<exists>created. objects (fst (frame (1/20) (- (11/5), 0, 0) rndNone
                               (spikesSys (- 3) (945/8) True True True 0))) =
      filter (\<lambda>ob. \<not> posZ ob > REMOVE_DISTANCE)
        (map (objAfter (speed (store (spikesSys (- 3) (945/8) True True True 0)) * min (1/20) 0.05)
                (min (1/20) 0.05) (- (11/5), 0, 0))
           (objects (spikesSys (- 3) (945/8) True True True 0)))
      @ created \<and>
      (\<forall>ob \<in> set created. active ob)) \<and>
   posZ (objAfter (9/8) (1/20) (0, 0, 0) (spike 0 (- (11/5)) (- (15/8)) False))
     = posZ (spike 0 (- (11/5)) (- (15/8)) False)
       + moveAmountOf (9/8) (1/20) (spike 0 (- (11/5)) (- (15/8)) False) \<and>
   oid (objAfter (9/8) (1/20) (0, 0, 0) (spike 0 (- (11/5)) (- (15/8)) False))
     = oid (spike 0 (- (11/5)) (- (15/8)) False) \<and>
   \<not> active (spike 0 (- (11/5)) (- (15/8)) False) \<and>
   \<not> active (objAfter (9/8) (1/20) (0, 0, 0) (spike 0 (- (11/5)) (- (15/8)) False))"
proof -
  have p: "status (store (spikesSys (- 3) (945/8) True True True 0)) = PLAYING"
    by (simp add: spikesSys_def startGame_fields)
  have i: "\<not> active (spike 0 (- (11/5)) (- (15/8)) False)"
    by (simp add: spike_simps)
  show ?thesis
    using C4_removed_only_past_threshold[of "spikesSys (- 3) (945/8) True True True 0" "1/20"
        "(- (11/5), 0, 0)" rndNone "9/8" "1/20" "spike 0 (- (11/5)) (- (15/8)) False"]
      C4_removed_only_past_threshold[of "spikesSys (- 3) (945/8) True True True 0" "1/20"
        "(0, 0, 0)" rndNone "9/8" "1/20" "spike 0 (- (11/5)) (- (15/8)) False"]
      p i
    by blast
qed

text \<open>
  Claim C4 as stated fails. In the run towards the lost game the left spike is active
  when the player reaches it, is hit in the next frame and becomes inactive, and is
  still in the registry after each of the two frames that follow, at coordinate 3/8,
  far from the removal distance of 20.
\<close>

theorem C4_inactive_object_stays:
  "reachable (runInputs approachInputs initialSys) \<and>
   spike 0 (- (11/5)) (- 3) True \<in> set (objects (runInputs approachInputs initialSys)) \<and>
   spike 0 (- (11/5)) (- (15/8)) False
     \<in> set (objects (sysStep (Frame (1/20) (- (11/5), 0, 0) rndNone)
                  (runInputs approachInputs initialSys))) \<and>
   spike 0 (- (11/5)) (- (3/4)) False
     \<in> set (objects (sysStep (Frame (1/20) (0, 0, 0) rndNone)
           (sysStep (Frame (1/20) (- (11/5), 0, 0) rndNone)
              (runInputs approachInputs initialSys)))) \<and>
   spike 0 (- (11/5)) (3/8) False
     \<in> set (objects (sysStep (Frame (1/20) (11/5, 0, 0) rndNone)
           (sysStep (Frame (1/20) (0, 0, 0) rndNone)
              (sysStep (Frame (1/20) (- (11/5), 0, 0) rndNone)
                 (runInputs approachInputs initialSys))))) \<and>
   \<not> (3/8 :: real) > REMOVE_DISTANCE"
  using reachable_runInputs[OF reachable.reach_init, of approachInputs]
  unfolding run_approach hit_frames
  by (simp add: spikesSys_def REMOVE_DISTANCE_def)

section \<open>Aliens and missiles\<close>

lemma level2_fields:
  "status (advanceLevel (startGame s)) = PLAYING" "speed (advanceLevel (startGame s)) = 297/10"
  "level (advanceLevel (startGame s)) = 2" "laneCount (advanceLevel (startGame s)) = 5"
  "lives (advanceLevel (startGame s)) = 3" "maxLives (advanceLevel (startGame s)) = 3"
  "collectedLetters (advanceLevel (startGame s)) = []"
  by (simp_all add: advanceLevel_def startGame_def RUN_SPEED_BASE_def DIFFICULTY_MULT_def
      makeOdd_def Let_def)

lemma rndAlien_fields:
  "rAttempt rndAlien = 0.5" "rPool rndAlien = 0.5" "rAlien rndAlien = 0.1"
  "rShuffle rndAlien = (\<lambda>xs. xs)" "rCount rndAlien = 0"
  by (simp_all add: rndAlien_def)

lemma alienAt_simps:
  "posZ (alienAt z f) = z" "posX (alienAt z f) = - (22/5)" "posY (alienAt z f) = 3/2"
  "active (alienAt z f)" "otype (alienAt z f) = ALIEN" "hasFired (alienAt z f) = Some f"
  by (simp_all add: alienAt_def mkObject_def posX_def posY_def posZ_def)

lemma moved_alienAt: "moved dst sd (alienAt z f) = alienAt (z + dst) f"
  by (simp add: moved_def moveAmountOf_def alienAt_def mkObject_def setZ_def posX_def posY_def
      posZ_def)

lemma collide_miss: "\<not> collides pp prevZ obj \<Longrightarrow> collide pp now prevZ obj L = (obj, L)"
  by (cases pp) (auto simp add: collide_def collides_def touches_def)

lemma processObj_fire:
  assumes "alienFires (moved dst sd obj)"
    "\<not> collides pp (posZ obj) (afterFire (moved dst sd obj))"
  shows "processObj dst sd pp now L obj =
           keepOrDrop (afterFire (moved dst sd obj)) (fireLoop (moved dst sd obj) L)"
  using assms by (simp add: processObj_parts collide_miss)

lemma leveled: "sysStep AdvanceLevel startedSys = alienSys [] 0 0"
  by (simp add: sysStep_def afterRender_def transitionEffect_def startedSys_def alienSys_def
      level2_fields startGame_fields getLetterInterval_def BASE_LETTER_INTERVAL_def
      SPAWN_DISTANCE_def Let_def)

lemma spawnAlien1:
  "spawnAliens (advanceLevel (startGame initialState)) rndAlien (- 120)
     \<lparr> sp_kept = [], sp_nextId = 0, sp_hasChanges = False, sp_nextLetterDistance = 105,
       sp_nextImmortalityDistance = 120 \<rparr>
   = \<lparr> sp_kept = [alienAt (- 120) False], sp_nextId = 1, sp_hasChanges = False,
       sp_nextLetterDistance = 105, sp_nextImmortalityDistance = 120 \<rparr>"
  by (simp add: spawnAliens_def rndAlien_fields laneRange_def level2_fields upto.simps
      pushObject_def alienAt_def mkObject_def LANE_WIDTH_def Let_def)

lemma spawnPhaseAlien:
  "d < 105 \<Longrightarrow> spawnPhase (advanceLevel (startGame initialState)) rndAlien d
      \<lparr> sp_kept = [], sp_nextId = 0, sp_hasChanges = False, sp_nextLetterDistance = 105,
       sp_nextImmortalityDistance = 120 \<rparr>
    = \<lparr> sp_kept = [alienAt (- 120) False], sp_nextId = 1, sp_hasChanges = True,
       sp_nextLetterDistance = 105, sp_nextImmortalityDistance = 120 \<rparr>"
  by (simp add: spawnPhase_def furthestZ_def spawnPool_def Let_def SPAWN_DISTANCE_def
      rndAlien_fields level2_fields DIFFICULTY_MULT_def spawnAlien1)

lemma alien_spawn:
  "sysStep (Frame (1/20) (0, 0, 0) rndAlien) (alienSys [] 0 0)
     = alienSys [alienAt (- 120) False] (297/200) 1"
  by (simp add: sysStep_def frame_def loopStart_def spawnStart_def Let_def
      alienSys_def level2_fields spawnPhaseAlien afterRender_def)

lemma alien_no_fire: "z \<le> - 90 \<Longrightarrow> \<not> alienFires (alienAt z f)"
  by (simp add: alienFires_def alienAt_simps)

lemma alien_idle:
  assumes "z + 297/200 \<le> - 90" "d + 297/200 < 105"
  shows "sysStep (Frame (1/20) (0, 0, 0) rndNone) (alienSys [alienAt z False] d 1)
     = alienSys [alienAt (z + 297/200) False] (d + 297/200) 1"
  using assms
  by (simp add: sysStep_def frame_def loopStart_def spawnStart_def Let_def
      alienSys_def level2_fields processObj_passive moved_alienAt alien_no_fire touches_def
      alienAt_simps inZZone_def keepOrDrop_def REMOVE_DISTANCE_def spawnPhase_none
      rndNone_fields afterRender_def)

lemma alien_idle_n:
  assumes "z + real n * (297/200) \<le> - 90" "d + real n * (297/200) < 105"
  shows "((sysStep (Frame (1/20) (0, 0, 0) rndNone)) ^^ n) (alienSys [alienAt z False] d 1)
     = alienSys [alienAt (z + real n * (297/200)) False] (d + real n * (297/200)) 1"
  using assms
proof (induction n)
  case 0
  show ?case by simp
next
  case (Suc n)
  have e: "real (Suc n) * (297/200) = real n * (297/200) + 297/200"
    by (simp add: ring_distribs add_divide_distrib)
  have n0: "0 \<le> real n * (297/200)" by simp
  have a: "z + real n * (297/200) \<le> - 90" "d + real n * (297/200) < 105"
    using Suc.prems e n0 by linarith+
  have b: "(z + real n * (297/200)) + 297/200 \<le> - 90" "(d + real n * (297/200)) + 297/200 < 105"
    using Suc.prems e by linarith+
  have "((sysStep (Frame (1/20) (0, 0, 0) rndNone)) ^^ Suc n) (alienSys [alienAt z False] d 1)
      = sysStep (Frame (1/20) (0, 0, 0) rndNone)
          (alienSys [alienAt (z + real n * (297/200)) False] (d + real n * (297/200)) 1)"
    using Suc.IH[OF a] by simp
  also have "\<dots> = alienSys [alienAt ((z + real n * (297/200)) + 297/200) False]
                     ((d + real n * (297/200)) + 297/200) 1"
    by (rule alien_idle[OF b])
  also have "\<dots> = alienSys [alienAt (z + real (Suc n) * (297/200)) False]
                     (d + real (Suc n) * (297/200)) 1"
    by (simp only: e add.assoc)
  finally show ?case .
qed

lemma alien_fires: "alienFires (alienAt z False) \<longleftrightarrow> - 90 < z"
  by (simp add: alienFires_def alienAt_simps)

lemma afterFire_alien: "- 90 < z \<Longrightarrow> afterFire (alienAt z False) = alienAt z True"
  by (simp add: afterFire_def alien_fires) (simp add: alienAt_def)

lemma alien_fire:
  assumes "- 90 < z + 297/200" "z + 297/200 \<le> - 2" "d + 297/200 < 105"
  shows "sysStep (Frame (1/20) (0, 0, 0) rndNone) (alienSys [alienAt z False] d 1)
     = alienSys [alienAt (z + 297/200) True, newMissile 1 (alienAt (z + 297/200) True)]
         (d + 297/200) 2"
  using assms
  by (simp add: sysStep_def frame_def loopStart_def spawnStart_def Let_def
      alienSys_def level2_fields processObj_fire moved_alienAt alien_fires afterFire_alien
      collides_def touches_def fireLoop_def
      alienAt_simps inZZone_def keepOrDrop_def REMOVE_DISTANCE_def spawnPhase_none
      rndNone_fields afterRender_def)

lemma alien_run:
  "runInputs alienInputs initialSys
     = alienSys [alienAt (- (17763/200)) True, newMissile 1 (alienAt (- (17763/200)) True)]
         (3267/100) 2"
proof -
  have 1: "runInputs [Start, AdvanceLevel, Frame (1/20) (0, 0, 0) rndAlien] initialSys
       = alienSys [alienAt (- 120) False] (297/200) 1"
    by (simp only: runInputs_def foldl.simps started leveled alien_spawn)
  have 2: "runInputs (replicate 20 (Frame (1/20) (0, 0, 0) rndNone))
             (alienSys [alienAt (- 120) False] (297/200) 1)
       = alienSys [alienAt (- (903/10)) False] (6237/200) 1"
    using alien_idle_n[of "- 120" 20 "297/200"] by (simp add: runInputs_replicate)
  have 3: "sysStep (Frame (1/20) (0, 0, 0) rndNone) (alienSys [alienAt (- (903/10)) False] (6237/200) 1)
       = alienSys [alienAt (- (17763/200)) True, newMissile 1 (alienAt (- (17763/200)) True)]
         (3267/100) 2"
    using alien_fire[of "- (903/10)" "6237/200"] by simp
  show ?thesis
    unfolding alienInputs_def runInputs_append 1 2
    by (simp only: runInputs_def foldl.simps 3)
qed

text \<open>
  Claim C6. An active alien that has not fired and whose coordinate after the move is
  above -90 makes the loop body add exactly one missile to the new spawns, at the alien's
  lateral position, height 1 and two units ahead, and the object the loop body leaves in
  the array it walks has \<open>hasFired\<close> set; in every other case the loop body adds no
  missile and leaves \<open>hasFired\<close> as it is. The object left in the array is the one kept
  in the registry unless it is past the removal distance, and the registry after a frame
  holds the objects so left, followed by what the frame has created. Over any sequence
  of frames the loop body adds at most one missile for an object. The scheduler only
  appends objects that are not missiles, and every missile in a reachable registry has
  the form the alien branch gives it.
\<close>

theorem C6_alien_fires_once:
  "(otype obj = ALIEN \<and> active obj \<and> hasFired obj \<noteq> Some True \<and>
    posZ obj + moveAmountOf dst sd obj > - 90 \<longrightarrow>
      l_newSpawns (processObj dst sd pp now L obj)
        = l_newSpawns L @ [newMissile (l_nextId L) (moved dst sd obj)] \<and>
      otype (newMissile (l_nextId L) (moved dst sd obj)) = MISSILE \<and>
      position (newMissile (l_nextId L) (moved dst sd obj))
        = (posX obj, 1, posZ obj + moveAmountOf dst sd obj + 2) \<and>
      hasFired (last (l_moved (processObj dst sd pp now L obj))) = Some True) \<and>
   (\<not> (otype obj = ALIEN \<and> active obj \<and> hasFired obj \<noteq> Some True \<and>
       posZ obj + moveAmountOf dst sd obj > - 90) \<longrightarrow>
      l_newSpawns (processObj dst sd pp now L obj) = l_newSpawns L \<and>
      hasFired (last (l_moved (processObj dst sd pp now L obj))) = hasFired obj) \<and>
   l_moved (processObj dst sd pp now L obj)
     = l_moved L @ [last (l_moved (processObj dst sd pp now L obj))] \<and>
   (\<not> posZ obj + moveAmountOf dst sd obj > REMOVE_DISTANCE \<longrightarrow>
      l_kept (processObj dst sd pp now L obj)
        = l_kept L @ [last (l_moved (processObj dst sd pp now L obj))]) \<and>
   missilesFired steps obj \<le> 1 \<and>
   (\<exists>created. sp_kept (spawnPhase snap rnd d S) = sp_kept S @ created \<and>
      (\<forall>ob \<in> set created. otype ob \<noteq> MISSILE \<and> active ob)) \<and>
   (reachable sys \<longrightarrow> (\<forall>ob \<in> set (objects sys). otype ob = MISSILE \<longrightarrow> firedMissile ob)) \<and>
   (status (store sys) = PLAYING \<longrightarrow>
      (\<exists>created. objects (fst (frame delta pp rnd sys)) =
         filter (\<lambda>ob. \<not> posZ ob > REMOVE_DISTANCE)
           (map (\<lambda>ob. last (l_moved (processObj (speed (store sys) * min delta 0.05)
                                       (min delta 0.05) pp (clock sys) L ob)))
              (objects sys))
         @ created))"
proof -
  let ?fires = "otype obj = ALIEN \<and> active obj \<and> hasFired obj \<noteq> Some True \<and>
    posZ obj + moveAmountOf dst sd obj > - 90"
  have f: "alienFires (moved dst sd obj) \<longleftrightarrow> ?fires"
    by (rule alienFires_moved)
  have l: "last (l_moved (processObj dst sd pp now L obj)) = objAfter dst sd pp obj"
    by (rule step_last)
  have a: "l_newSpawns (processObj dst sd pp now L obj)
        = l_newSpawns L @ [newMissile (l_nextId L) (moved dst sd obj)] \<and>
      otype (newMissile (l_nextId L) (moved dst sd obj)) = MISSILE \<and>
      position (newMissile (l_nextId L) (moved dst sd obj))
        = (posX obj, 1, posZ obj + moveAmountOf dst sd obj + 2) \<and>
      hasFired (last (l_moved (processObj dst sd pp now L obj))) = Some True" if "?fires"
    using that f unfolding l
    by (simp add: processObj_newSpawns hasFired_objAfter newMissile_afterFire newMissile_fields
        moved_fields posX_def posZ_def)
  have b: "l_newSpawns (processObj dst sd pp now L obj) = l_newSpawns L \<and>
      hasFired (last (l_moved (processObj dst sd pp now L obj))) = hasFired obj" if "\<not> ?fires"
    using that f unfolding l by (simp add: processObj_newSpawns hasFired_objAfter)
  have m: "l_moved (processObj dst sd pp now L obj)
     = l_moved L @ [last (l_moved (processObj dst sd pp now L obj))]"
    unfolding l by (rule processObj_moved)
  have k: "l_kept (processObj dst sd pp now L obj)
        = l_kept L @ [last (l_moved (processObj dst sd pp now L obj))]"
    if "\<not> posZ obj + moveAmountOf dst sd obj > REMOVE_DISTANCE"
    using that unfolding l by (simp add: processObj_kept posZ_objAfter)
  have c: "\<exists>created. sp_kept (spawnPhase snap rnd d S) = sp_kept S @ created \<and>
      (\<forall>ob \<in> set created. otype ob \<noteq> MISSILE \<and> active ob)"
    using appended_spawnPhase[of S snap rnd d] by (simp add: appended_def)
  have e: "\<forall>ob \<in> set (objects sys). otype ob = MISSILE \<longrightarrow> firedMissile ob"
    if "reachable sys"
    using missilesOk_reachable[OF that] by (simp add: missilesOk_def)
  have g: "\<exists>created. objects (fst (frame delta pp rnd sys)) =
         filter (\<lambda>ob. \<not> posZ ob > REMOVE_DISTANCE)
           (map (\<lambda>ob. last (l_moved (processObj (speed (store sys) * min delta 0.05)
                                       (min delta 0.05) pp (clock sys) L ob)))
              (objects sys))
         @ created" if p: "status (store sys) = PLAYING"
  proof -
    obtain created where "objects (fst (frame delta pp rnd sys)) =
         filter (\<lambda>ob. \<not> posZ ob > REMOVE_DISTANCE)
           (map (objAfter (speed (store sys) * min delta 0.05) (min delta 0.05) pp) (objects sys))
         @ l_newSpawns (foldl (processObj (speed (store sys) * min delta 0.05) (min delta 0.05)
                                pp (clock sys)) (loopStart sys) (objects sys))
         @ created"
      using frame_objects[OF p, of delta pp rnd] by blast
    then show ?thesis
      unfolding step_last
      by (intro exI[of _ "l_newSpawns (foldl (processObj (speed (store sys) * min delta 0.05)
                (min delta 0.05) pp (clock sys)) (loopStart sys) (objects sys)) @ created"])
         simp
  qed
  show ?thesis
    using a b m k c e g missilesFired_le[of steps obj] by blast
qed

theorem C6_alien_witness:
  "otype (alienAt (- (903/10)) False) = ALIEN \<and> active (alienAt (- (903/10)) False) \<and>
   hasFired (alienAt (- (903/10)) False) \<noteq> Some True \<and>
   posZ (alienAt (- (903/10)) False)
     + moveAmountOf (297/200) (1/20) (alienAt (- (903/10)) False) > - 90 \<and>
   l_newSpawns (processObj (297/200) (1/20) (0, 0, 0) 0 (loopStart initialSys)
                  (alienAt (- (903/10)) False))
     = [newMissile 0 (alienAt (- (17763/200)) False)] \<and>
   position (newMissile 0 (alienAt (- (17763/200)) False)) = (- (22/5), 1, - (17363/200)) \<and>
   hasFired (last (l_moved (processObj (297/200) (1/20) (0, 0, 0) 0 (loopStart initialSys)
                              (alienAt (- (903/10)) False)))) = Some True \<and>
   l_moved (processObj (297/200) (1/20) (0, 0, 0) 0 (loopStart initialSys)
              (alienAt (- (903/10)) False)) = [alienAt (- (17763/200)) True] \<and>
   \<not> posZ (alienAt (- (903/10)) False)
       + moveAmountOf (297/200) (1/20) (alienAt (- (903/10)) False) > REMOVE_DISTANCE \<and>
   l_kept (processObj (297/200) (1/20) (0, 0, 0) 0 (loopStart initialSys)
             (alienAt (- (903/10)) False)) = [alienAt (- (17763/200)) True] \<and>
   l_newSpawns (processObj (297/200) (1/20) (0, 0, 0) 0 (loopStart initialSys)
                  (alienAt (- (17763/200)) True)) = [] \<and>
   hasFired (last (l_moved (processObj (297/200) (1/20) (0, 0, 0) 0 (loopStart initialSys)
                              (alienAt (- (17763/200)) True)))) = Some True \<and>
   missilesFired [(297/200, 1/20, (0, 0, 0), 0, loopStart initialSys),
                  (297/200, 1/20, (0, 0, 0), 0, loopStart initialSys)]
     (alienAt (- (903/10)) False) \<le> 1 \<and>
   missilesFired [(297/200, 1/20, (0, 0, 0), 0, loopStart initialSys),
                  (297/200, 1/20, (0, 0, 0), 0, loopStart initialSys)]
     (alienAt (- (903/10)) False) = 1 \<and>
   (\<exists>created. sp_kept (spawnPhase (startGame initialState) rndSpikes (9/8) emptySpawn)
        = sp_kept emptySpawn @ created \<and>
      (\<forall>ob \<in> set created. otype ob \<noteq> MISSILE \<and> active ob)) \<and>
   reachable (runInputs alienInputs initialSys) \<and>
   newMissile 1 (alienAt (- (17763/200)) True) \<in> set (objects (runInputs alienInputs initialSys)) \<and>
   otype (newMissile 1 (alienAt (- (17763/200)) True)) = MISSILE \<and>
   firedMissile (newMissile 1 (alienAt (- (17763/200)) True)) \<and>
   status (store (runInputs alienInputs initialSys)) = PLAYING \<and>
   (\<exists>created. objects (fst (frame (1/20) (0, 0, 0) rndSpikes (runInputs alienInputs initialSys))) =
      filter (\<lambda>ob. \<not> posZ ob > REMOVE_DISTANCE)
        (map (\<lambda>ob. last (l_moved (processObj
                      (speed (store (runInputs alienInputs initialSys)) * min (1/20) 0.05)
                      (min (1/20) 0.05) (0, 0, 0) (clock (runInputs alienInputs initialSys))
                      (loopStart initialSys) ob)))
           (objects (runInputs alienInputs initialSys)))
      @ created)"
proof -
  let ?a = "alienAt (- (903/10)) False" and ?b = "alienAt (- (17763/200)) True"
  let ?L = "loopStart initialSys"
  let ?steps = "[(297/200, 1/20, (0, 0, 0), 0, ?L),
                 (297/200 :: real, 1/20 :: real, (0 :: real, 0 :: real, 0 :: real), 0 :: int, ?L)]"
  let ?X = "runInputs alienInputs initialSys"
  have h: "otype ?a = ALIEN" "active ?a" "hasFired ?a \<noteq> Some True"
      "posZ ?a + moveAmountOf (297/200) (1/20) ?a > - 90"
      "\<not> posZ ?a + moveAmountOf (297/200) (1/20) ?a > REMOVE_DISTANCE"
    by (simp_all add: alienAt_simps moveAmountOf_def REMOVE_DISTANCE_def)
  have n: "\<not> (otype ?b = ALIEN \<and> active ?b \<and> hasFired ?b \<noteq> Some True \<and>
       posZ ?b + moveAmountOf (297/200) (1/20) ?b > - 90)"
    by (simp add: alienAt_simps)
  have r: "reachable ?X"
    by (rule reachable_runInputs[OF reachable.reach_init])
  have m: "newMissile 1 ?b \<in> set (objects ?X)" "otype (newMissile 1 ?b) = MISSILE"
    by (simp_all add: alien_run alienSys_def newMissile_def)
  have e: "l_newSpawns ?L = []" "l_nextId ?L = 0" "l_moved ?L = []" "l_kept ?L = []"
    by (simp_all add: loopStart_def initialSys_def)
  have mv: "moved (297/200) (1/20) ?a = alienAt (- (17763/200)) False"
    by (simp add: moved_alienAt)
  have ps: "posX ?a = - (22/5)" "posZ ?a + moveAmountOf (297/200) (1/20) ?a + 2 = - (17363/200)"
    by (simp_all add: alienAt_simps moveAmountOf_def)
  have oa: "objAfter (297/200) (1/20) (0, 0, 0) ?a = ?b"
    by (simp add: objAfter_def Let_def mv afterFire_alien collides_def touches_def alienAt_simps)
  note t1 = C6_alien_fires_once[of ?a "297/200" "1/20" "(0, 0, 0)" 0 ?L
        ?steps "startGame initialState" rndSpikes "9/8" emptySpawn ?X "1/20"]
  note t2 = C6_alien_fires_once[of ?b "297/200" "1/20" "(0, 0, 0)" 0 ?L
        ?steps "startGame initialState" rndSpikes "9/8" emptySpawn ?X "1/20"]
  have c1: "l_newSpawns (processObj (297/200) (1/20) (0, 0, 0) 0 ?L ?a)
      = [newMissile 0 (alienAt (- (17763/200)) False)]"
      "position (newMissile 0 (alienAt (- (17763/200)) False)) = (- (22/5), 1, - (17363/200))"
      "hasFired (last (l_moved (processObj (297/200) (1/20) (0, 0, 0) 0 ?L ?a))) = Some True"
    using t1 h by (simp_all add: e mv ps)
  have c2: "l_moved (processObj (297/200) (1/20) (0, 0, 0) 0 ?L ?a) = [?b]"
      "l_kept (processObj (297/200) (1/20) (0, 0, 0) 0 ?L ?a) = [?b]"
    using t1 h(5) by (simp_all add: e step_last oa)
  have c3: "l_newSpawns (processObj (297/200) (1/20) (0, 0, 0) 0 ?L ?b) = []"
      "hasFired (last (l_moved (processObj (297/200) (1/20) (0, 0, 0) 0 ?L ?b))) = Some True"
    using t2 n by (simp_all add: e alienAt_simps)
  have c4: "missilesFired ?steps ?a \<le> 1"
    using t1 by blast
  have c5: "missilesFired ?steps ?a = 1"
    by (simp add: c1(1) c2(1) c3(1) e)
  have c6: "\<exists>created. sp_kept (spawnPhase (startGame initialState) rndSpikes (9/8) emptySpawn)
        = sp_kept emptySpawn @ created \<and>
        (\<forall>ob \<in> set created. otype ob \<noteq> MISSILE \<and> active ob)"
    using t1 by blast
  have c7: "firedMissile (newMissile 1 ?b)"
    using t1 r m by blast
  have p: "status (store ?X) = PLAYING"
    by (simp add: alien_run alienSys_def level2_fields)
  have c8: "\<exists>created. objects (fst (frame (1/20) (0, 0, 0) rndSpikes ?X)) =
      filter (\<lambda>ob. \<not> posZ ob > REMOVE_DISTANCE)
        (map (\<lambda>ob. last (l_moved (processObj (speed (store ?X) * min (1/20) 0.05)
                      (min (1/20) 0.05) (0, 0, 0) (clock ?X) ?L ob)))
           (objects ?X))
      @ created"
    using t1 p by blast
  show ?thesis
    using h c1 c2 c3 c4 c5 c6 c7 c8 p r m by blast
qed

section \<open>The letter that is due\<close>























end
